theory Spec2Isabelle
  imports Main "HOL-Library.Multiset"
begin

section \<open>The task page: data model\<close>

text \<open>
  The interfaces \<^verbatim>\<open>Subtask\<close> and \<^verbatim>\<open>Task\<close> of the to-do page. An optional field
  (\<^verbatim>\<open>description?\<close>, \<^verbatim>\<open>dueDate?\<close>, \<^verbatim>\<open>category?\<close>, \<^verbatim>\<open>completedAt?\<close>) is an
  option, \<open>None\<close> standing for \<^verbatim>\<open>undefined\<close>. Numbers that the page uses as
  identities and millisecond time stamps are integers. The field \<^verbatim>\<open>id\<close> is
  called \<open>taskId\<close> (\<open>subtaskId\<close> in a subtask), the subtask's \<^verbatim>\<open>title\<close> is
  \<open>subtaskTitle\<close>.
\<close>

datatype task_status = Pending | Completed

datatype priority_level = Low | Medium | High | Urgent

record subtask =
  subtaskId :: int
  subtaskTitle :: string
  completed :: bool

record task =
  taskId :: int
  title :: string
  description :: "string option"
  status :: task_status
  priority :: priority_level
  dueDate :: "string option"
  category :: "string option"
  subtasks :: "subtask list"
  createdAt :: int
  completedAt :: "int option"

datatype filter_type = FilterAll | FilterPending | FilterCompleted

datatype sort_type = SortDate | SortPriority | SortDueDate | SortAlphabetical

text \<open>
  The state of \<^verbatim>\<open>TodoPage\<close> that its handlers read and write (one field for each
  \<^verbatim>\<open>useState\<close> they touch). \<^verbatim>\<open>filter\<close> is called \<open>filter_type\<close> here.
\<close>

record page =
  tasks :: "task list"
  searchQuery :: string
  filter_type :: filter_type
  sortBy :: sort_type
  selectedTasks :: "int set"
  editingId :: "int option"
  deleteConfirmId :: "int option"
  showTemplates :: bool
  newTaskTitle :: string
  newTaskDescription :: string
  newTaskPriority :: priority_level
  newTaskDueDate :: string
  newTaskCategory :: string
  showNewTaskForm :: bool

section \<open>String helpers of the platform\<close>

text \<open>
  \<^verbatim>\<open>String.prototype.includes\<close> (\<open>includesStr\<close>) and \<^verbatim>\<open>replace\<close> (with a string
  pattern: the first occurrence only) on byte strings.
  \<^verbatim>\<open>String.prototype.toLowerCase\<close> and \<^verbatim>\<open>String.prototype.trim\<close> follow the
  platform's Unicode tables: the functions that use them take them as the
  parameters \<open>toLowerCase\<close> and \<open>trim\<close>.
\<close>

fun startsWith :: "string \<Rightarrow> string \<Rightarrow> bool" where
  "startsWith s [] = True"
| "startsWith [] (q # qs) = False"
| "startsWith (c # cs) (q # qs) = (c = q \<and> startsWith cs qs)"

fun includesStr :: "string \<Rightarrow> string \<Rightarrow> bool" where
  "includesStr [] q = (q = [])"
| "includesStr (c # cs) q = (startsWith (c # cs) q \<or> includesStr cs q)"

fun replaceFirst :: "string \<Rightarrow> string \<Rightarrow> string \<Rightarrow> string" where
  "replaceFirst pat rep [] = (if pat = [] then rep else [])"
| "replaceFirst pat rep (c # cs) =
     (if startsWith (c # cs) pat then rep @ drop (length pat) (c # cs)
      else c # replaceFirst pat rep cs)"

section \<open>Loading and importing\<close>

text \<open>
  What \<^verbatim>\<open>JSON.parse\<close> gives for a stored or uploaded text: it throws
  (\<open>Unparsable\<close>) or returns a document. The page distinguishes a top-level array
  from everything else and looks no further, so the array carries the records
  that the page will read as tasks, whatever their fields hold.
\<close>

datatype json_doc =
    JArray "task list"
  | JObject "(string \<times> string) list"
  | JString string
  | JNumber int
  | JBool bool
  | JNull

datatype file_text = Unparsable | Parsed json_doc

fun isArray :: "json_doc \<Rightarrow> bool" where
  "isArray (JArray ts) = True"
| "isArray _ = False"

fun elements :: "json_doc \<Rightarrow> task list" where
  "elements (JArray ts) = ts"
| "elements _ = []"

definition seedTasks :: "int \<Rightarrow> task list" where
  "seedTasks now =
     [\<lparr>taskId = 1, title = ''Study DSA'', description = None, status = Pending,
       priority = Medium, dueDate = None, category = None, subtasks = [],
       createdAt = now, completedAt = None\<rparr>,
      \<lparr>taskId = 2, title = ''Build To-Do App'', description = None, status = Completed,
       priority = High, dueDate = None, category = None, subtasks = [],
       createdAt = now, completedAt = None\<rparr>]"

text \<open>
  \<^verbatim>\<open>loadTasks\<close>: \<open>now\<close> is the reading of \<^verbatim>\<open>Date.now()\<close>, \<open>hasWindow\<close> says
  whether \<^verbatim>\<open>window\<close> is defined, \<open>stored\<close> is the stored text (\<open>None\<close> when the key
  is absent). A stored text that does not parse, or parses to something without
  a \<^verbatim>\<open>map\<close> method, raises inside the \<^verbatim>\<open>try\<close> and ends at the seed list. A
  \<^verbatim>\<open>createdAt\<close> that is falsy (here: \<open>0\<close>) is replaced by \<open>now\<close>.
\<close>

definition loadTasks :: "int \<Rightarrow> bool \<Rightarrow> file_text option \<Rightarrow> task list" where
  "loadTasks now hasWindow stored =
     (if \<not> hasWindow then []
      else case stored of
        Some (Parsed (JArray ts)) \<Rightarrow>
          map (\<lambda>task. task\<lparr>createdAt := (if createdAt task = 0 then now else createdAt task)\<rparr>) ts
      | _ \<Rightarrow> seedTasks now)"

datatype alert = Imported_successfully nat | Invalid_file_format | Error_importing_file

text \<open>
  \<^verbatim>\<open>importTasks\<close>: \<open>file\<close> is \<open>None\<close> when no file was chosen; the result is the
  new state and the alert shown, if any.
\<close>

definition importTasks :: "file_text option \<Rightarrow> page \<Rightarrow> page \<times> alert option" where
  "importTasks file s =
     (case file of
        None \<Rightarrow> (s, None)
      | Some Unparsable \<Rightarrow> (s, Some Error_importing_file)
      | Some (Parsed imported) \<Rightarrow>
          (if isArray imported
           then (s\<lparr>tasks := elements imported\<rparr>,
                 Some (Imported_successfully (length (elements imported))))
           else (s, Some Invalid_file_format)))"

section \<open>The view projection\<close>

definition searchMatches :: "(string \<Rightarrow> string) \<Rightarrow> string \<Rightarrow> task \<Rightarrow> bool" where
  "searchMatches toLowerCase q task =
     (let query = toLowerCase q in
        includesStr (toLowerCase (title task)) query
        \<or> (case description task of None \<Rightarrow> False | Some d \<Rightarrow> includesStr (toLowerCase d) query)
        \<or> (case category task of None \<Rightarrow> False | Some c \<Rightarrow> includesStr (toLowerCase c) query))"

definition filterTask ::
  "(string \<Rightarrow> string) \<Rightarrow> filter_type \<Rightarrow> string \<Rightarrow> task \<Rightarrow> bool" where
  "filterTask toLowerCase f q task =
     (if f = FilterPending \<and> status task \<noteq> Pending then False
      else if f = FilterCompleted \<and> status task \<noteq> Completed then False
      else if q \<noteq> [] then searchMatches toLowerCase q task
      else True)"

fun priorityOrder :: "priority_level \<Rightarrow> int" where
  "priorityOrder Urgent = 4"
| "priorityOrder High = 3"
| "priorityOrder Medium = 2"
| "priorityOrder Low = 1"

definition noDueDate :: "task \<Rightarrow> bool" where
  "noDueDate t = (dueDate t = None \<or> dueDate t = Some [])"

definition dueTime :: "(string \<Rightarrow> int option) \<Rightarrow> task \<Rightarrow> int option" where
  "dueTime getTime t = (case dueDate t of None \<Rightarrow> None | Some d \<Rightarrow> getTime d)"

text \<open>
  The comparator of the sort. \<open>getTime d\<close> is \<^verbatim>\<open>new Date(d).getTime()\<close>, \<open>None\<close> for
  the \<^verbatim>\<open>NaN\<close> of a text that is not a date, and \<open>localeCompare\<close> is the platform's
  collation; the result is a number, \<open>None\<close> again for \<^verbatim>\<open>NaN\<close>.
\<close>

definition compareTasks ::
  "(string \<Rightarrow> int option) \<Rightarrow> (string \<Rightarrow> string \<Rightarrow> int) \<Rightarrow> sort_type \<Rightarrow> task \<Rightarrow> task \<Rightarrow> int option" where
  "compareTasks getTime localeCompare sb a b =
     (case sb of
        SortPriority \<Rightarrow> Some (priorityOrder (priority b) - priorityOrder (priority a))
      | SortDueDate \<Rightarrow>
          (if noDueDate a \<and> noDueDate b then Some 0
           else if noDueDate a then Some 1
           else if noDueDate b then Some (- 1)
           else (case (dueTime getTime a, dueTime getTime b) of
                   (Some x, Some y) \<Rightarrow> Some (x - y)
                 | _ \<Rightarrow> None))
      | SortAlphabetical \<Rightarrow> Some (localeCompare (title a) (title b))
      | SortDate \<Rightarrow> Some (createdAt b - createdAt a))"

text \<open>
  \<^verbatim>\<open>Array.prototype.sort\<close> with a comparator: a stable sort, in which a comparator
  result \<^verbatim>\<open>NaN\<close> counts as \<open>0\<close>. It is written as the stable insertion sort.
\<close>

definition comparison :: "('a \<Rightarrow> 'a \<Rightarrow> int option) \<Rightarrow> 'a \<Rightarrow> 'a \<Rightarrow> int" where
  "comparison cmp a b = (case cmp a b of None \<Rightarrow> 0 | Some v \<Rightarrow> v)"

fun insertSorted :: "('a \<Rightarrow> 'a \<Rightarrow> int option) \<Rightarrow> 'a \<Rightarrow> 'a list \<Rightarrow> 'a list" where
  "insertSorted cmp x [] = [x]"
| "insertSorted cmp x (y # ys) =
     (if comparison cmp x y \<le> 0 then x # y # ys else y # insertSorted cmp x ys)"

definition sortWith :: "('a \<Rightarrow> 'a \<Rightarrow> int option) \<Rightarrow> 'a list \<Rightarrow> 'a list" where
  "sortWith cmp xs = foldr (insertSorted cmp) xs []"

definition filteredAndSortedTasks ::
  "(string \<Rightarrow> string) \<Rightarrow> (string \<Rightarrow> int option) \<Rightarrow> (string \<Rightarrow> string \<Rightarrow> int) \<Rightarrow> page
     \<Rightarrow> task list" where
  "filteredAndSortedTasks toLowerCase getTime localeCompare s =
     sortWith (compareTasks getTime localeCompare (sortBy s))
       (filter (filterTask toLowerCase (filter_type s) (searchQuery s)) (tasks s))"

text \<open>
  The state as the \<^verbatim>\<open>useState\<close> calls create it, and after the effect that runs
  on mount has installed the loaded list.
\<close>

definition initialPage :: page where
  "initialPage =
     \<lparr>tasks = [], searchQuery = [], filter_type = FilterAll, sortBy = SortDate,
      selectedTasks = {}, editingId = None, deleteConfirmId = None, showTemplates = False,
      newTaskTitle = [], newTaskDescription = [], newTaskPriority = Medium,
      newTaskDueDate = [], newTaskCategory = [], showNewTaskForm = False\<rparr>"

definition mountedPage :: "int \<Rightarrow> file_text option \<Rightarrow> page" where
  "mountedPage now stored = initialPage\<lparr>tasks := loadTasks now True stored\<rparr>"

section \<open>The handlers of the task page\<close>

text \<open>
  Each handler takes the state and returns the new one. A handler that reads the
  clock takes the reading \<open>now\<close> of \<^verbatim>\<open>Date.now()\<close> (one reading for the whole
  handler), and one that trims a text takes the platform's \<open>trim\<close>.
\<close>

definition orUndefined :: "string \<Rightarrow> string option" where
  "orUndefined x = (if x = [] then None else Some x)"

definition handleAddTask :: "(string \<Rightarrow> string) \<Rightarrow> int \<Rightarrow> page \<Rightarrow> page" where
  "handleAddTask trim now s =
     (let taskTitle = trim (newTaskTitle s) in
      if taskTitle = [] then s
      else
        (let newTask =
           \<lparr>taskId = now, title = taskTitle,
            description = orUndefined (trim (newTaskDescription s)),
            status = Pending, priority = newTaskPriority s,
            dueDate = orUndefined (newTaskDueDate s),
            category = orUndefined (trim (newTaskCategory s)),
            subtasks = [], createdAt = now, completedAt = None\<rparr>
         in s\<lparr>tasks := tasks s @ [newTask], newTaskTitle := [], newTaskDescription := [],
              newTaskPriority := Medium, newTaskDueDate := [], newTaskCategory := [],
              showNewTaskForm := False\<rparr>))"

text \<open>
  \<^verbatim>\<open>Partial<Task>\<close>: each key is absent (\<open>None\<close>) or carries a value, which for an
  optional field of the task may itself be \<^verbatim>\<open>undefined\<close>. \<open>merge\<close> is the object
  spread \<^verbatim>\<open>{ ...task, ...updates }\<close>.
\<close>

record task_updates =
  upd_taskId :: "int option"
  upd_title :: "string option"
  upd_description :: "string option option"
  upd_status :: "task_status option"
  upd_priority :: "priority_level option"
  upd_dueDate :: "string option option"
  upd_category :: "string option option"
  upd_subtasks :: "subtask list option"
  upd_createdAt :: "int option"
  upd_completedAt :: "int option option"

definition override :: "'a \<Rightarrow> 'a option \<Rightarrow> 'a" where
  "override old new = (case new of None \<Rightarrow> old | Some v \<Rightarrow> v)"

definition merge :: "task \<Rightarrow> task_updates \<Rightarrow> task" where
  "merge task updates =
     \<lparr>taskId = override (taskId task) (upd_taskId updates),
      title = override (title task) (upd_title updates),
      description = override (description task) (upd_description updates),
      status = override (status task) (upd_status updates),
      priority = override (priority task) (upd_priority updates),
      dueDate = override (dueDate task) (upd_dueDate updates),
      category = override (category task) (upd_category updates),
      subtasks = override (subtasks task) (upd_subtasks updates),
      createdAt = override (createdAt task) (upd_createdAt updates),
      completedAt = override (completedAt task) (upd_completedAt updates)\<rparr>"

definition handleUpdateTask :: "int \<Rightarrow> task_updates \<Rightarrow> page \<Rightarrow> page" where
  "handleUpdateTask i updates s =
     s\<lparr>tasks := map (\<lambda>task. if taskId task = i then merge task updates else task) (tasks s),
       editingId := None\<rparr>"

text \<open>
  The update object of the two call sites of \<^verbatim>\<open>handleUpdateTask\<close>, which is
  \<^verbatim>\<open>{ title: t }\<close> with the text typed into the title field or with the
  placeholder \<^verbatim>\<open>Untitled Task\<close>.
\<close>

definition titleOnly :: "string \<Rightarrow> task_updates" where
  "titleOnly t =
     \<lparr>upd_taskId = None, upd_title = Some t, upd_description = None, upd_status = None,
      upd_priority = None, upd_dueDate = None, upd_category = None, upd_subtasks = None,
      upd_createdAt = None, upd_completedAt = None\<rparr>"

definition toggleTaskStatus :: "int \<Rightarrow> int \<Rightarrow> page \<Rightarrow> page" where
  "toggleTaskStatus now i s =
     s\<lparr>tasks :=
         map (\<lambda>task.
               if taskId task = i
               then task\<lparr>status := (if status task = Pending then Completed else Pending),
                         completedAt := (if status task = Pending then Some now else None)\<rparr>
               else task)
           (tasks s)\<rparr>"

definition handleDeleteTask :: "int \<Rightarrow> page \<Rightarrow> page" where
  "handleDeleteTask i s =
     s\<lparr>tasks := filter (\<lambda>task. taskId task \<noteq> i) (tasks s),
       deleteConfirmId := None,
       selectedTasks := selectedTasks s - {i}\<rparr>"

definition addSubtask ::
  "(string \<Rightarrow> string) \<Rightarrow> int \<Rightarrow> int \<Rightarrow> string \<Rightarrow> page \<Rightarrow> page" where
  "addSubtask trim now i newTitle s =
     (if trim newTitle = [] then s
      else
        (let newSubtask = \<lparr>subtaskId = now, subtaskTitle = trim newTitle, completed = False\<rparr>
         in s\<lparr>tasks :=
                map (\<lambda>task.
                      if taskId task = i then task\<lparr>subtasks := subtasks task @ [newSubtask]\<rparr>
                      else task)
                  (tasks s)\<rparr>))"

definition toggleSubtask :: "int \<Rightarrow> int \<Rightarrow> page \<Rightarrow> page" where
  "toggleSubtask i j s =
     s\<lparr>tasks :=
         map (\<lambda>task.
               if taskId task = i
               then task\<lparr>subtasks :=
                          map (\<lambda>st. if subtaskId st = j then st\<lparr>completed := \<not> completed st\<rparr> else st)
                            (subtasks task)\<rparr>
               else task)
           (tasks s)\<rparr>"

definition deleteSubtask :: "int \<Rightarrow> int \<Rightarrow> page \<Rightarrow> page" where
  "deleteSubtask i j s =
     s\<lparr>tasks :=
         map (\<lambda>task.
               if taskId task = i
               then task\<lparr>subtasks := filter (\<lambda>st. subtaskId st \<noteq> j) (subtasks task)\<rparr>
               else task)
           (tasks s)\<rparr>"

definition bulkDelete :: "page \<Rightarrow> page" where
  "bulkDelete s =
     s\<lparr>tasks := filter (\<lambda>task. taskId task \<notin> selectedTasks s) (tasks s),
       selectedTasks := {}\<rparr>"

definition bulkComplete :: "int \<Rightarrow> page \<Rightarrow> page" where
  "bulkComplete now s =
     s\<lparr>tasks :=
         map (\<lambda>task.
               if taskId task \<in> selectedTasks s \<and> status task = Pending
               then task\<lparr>status := Completed, completedAt := Some now\<rparr>
               else task)
           (tasks s),
       selectedTasks := {}\<rparr>"

definition bulkUpdatePriority :: "priority_level \<Rightarrow> page \<Rightarrow> page" where
  "bulkUpdatePriority p s =
     s\<lparr>tasks :=
         map (\<lambda>task. if taskId task \<in> selectedTasks s then task\<lparr>priority := p\<rparr> else task)
           (tasks s),
       selectedTasks := {}\<rparr>"

definition useTemplate :: "int \<Rightarrow> task \<Rightarrow> page \<Rightarrow> page" where
  "useTemplate now template s =
     (let newTask =
        template\<lparr>taskId := now, status := Pending, createdAt := now, completedAt := None,
                  title := replaceFirst '' (Template)'' [] (title template)\<rparr>
      in s\<lparr>tasks := tasks s @ [newTask], showTemplates := False\<rparr>)"

subsection \<open>Drag and drop\<close>

text \<open>
  \<^verbatim>\<open>findIndex\<close> gives \<open>-1\<close> when nothing matches. \<^verbatim>\<open>splice\<close> turns a negative start
  into an offset from the end and clamps it to the array: \<open>spliceDelete1\<close> is
  \<^verbatim>\<open>splice(start, 1)\<close>, giving the removed elements and what is left, and
  \<open>spliceInsert\<close> is \<^verbatim>\<open>splice(start, 0, x)\<close>.
\<close>

fun findIndex :: "('a \<Rightarrow> bool) \<Rightarrow> 'a list \<Rightarrow> int" where
  "findIndex p [] = - 1"
| "findIndex p (x # xs) =
     (if p x then 0 else (let i = findIndex p xs in if i < 0 then - 1 else i + 1))"

definition spliceStart :: "int \<Rightarrow> nat \<Rightarrow> nat" where
  "spliceStart start len =
     (if start < 0 then nat (max (int len + start) 0) else min (nat start) len)"

definition spliceDelete1 :: "int \<Rightarrow> 'a list \<Rightarrow> 'a list \<times> 'a list" where
  "spliceDelete1 start xs =
     (let k = spliceStart start (length xs)
      in (take 1 (drop k xs), take k xs @ drop (k + 1) xs))"

definition spliceInsert :: "int \<Rightarrow> 'a \<Rightarrow> 'a list \<Rightarrow> 'a list" where
  "spliceInsert start x xs =
     (let k = spliceStart start (length xs) in take k xs @ [x] @ drop k xs)"

text \<open>
  The \<^verbatim>\<open>onDrop\<close> handler of the card of the task \<open>targetId\<close>. \<open>draggedId\<close> is what
  \<^verbatim>\<open>parseInt\<close> made of the dragged text, \<open>None\<close> for \<^verbatim>\<open>NaN\<close>. On an empty list the
  handler would insert \<^verbatim>\<open>undefined\<close>, which is no task: the result is \<open>None\<close>
  there.
\<close>

definition onDrop :: "int option \<Rightarrow> int \<Rightarrow> page \<Rightarrow> page option" where
  "onDrop draggedId targetId s =
     (if draggedId \<noteq> Some targetId
      then
        (let newTasks = tasks s;
             draggedIndex = findIndex (\<lambda>t. Some (taskId t) = draggedId) newTasks;
             dropIndex = findIndex (\<lambda>t. taskId t = targetId) newTasks;
             (removed, rest) = spliceDelete1 draggedIndex newTasks
         in case removed of
              [] \<Rightarrow> None
            | dragged # _ \<Rightarrow> Some (s\<lparr>tasks := spliceInsert dropIndex dragged rest\<rparr>))
      else Some s)"

section \<open>The chat relay (src/app/api/chat/route.ts)\<close>

text \<open>
  An entry of the incoming \<^verbatim>\<open>chatHistory\<close>, and an entry of the history handed to
  the upstream model (\<^verbatim>\<open>{ role, parts: [{ text }] }\<close>, the parts as the list of
  their texts).
\<close>

record chat_entry =
  role :: string
  content :: string

record history_entry =
  historyRole :: string
  parts :: "string list"

text \<open>A thrown value, with its \<^verbatim>\<open>message\<close> if it has one.\<close>

datatype js_error = JsError "string option"

fun errorMessage :: "js_error \<Rightarrow> string option" where
  "errorMessage (JsError m) = m"

text \<open>\<^verbatim>\<open>error.message?.includes(pat)\<close>, \<^verbatim>\<open>undefined\<close> counting as false.\<close>

definition messageIncludes :: "js_error \<Rightarrow> string \<Rightarrow> bool" where
  "messageIncludes e pat = (case errorMessage e of None \<Rightarrow> False | Some m \<Rightarrow> includesStr m pat)"

text \<open>
  The request body: \<open>bodyMessage\<close> is \<open>None\<close> when \<^verbatim>\<open>message\<close> is absent or not a
  string; \<^verbatim>\<open>chatHistory\<close> is absent, an array of entries, or something that has no
  \<^verbatim>\<open>filter\<close> method.
\<close>

datatype history_field = Absent | Entries "chat_entry list" | NotAnArray

record chat_body =
  bodyMessage :: "string option"
  bodyChatHistory :: history_field

datatype response_body =
    Failure string "string option"
  | Success string

record response =
  httpStatus :: nat
  body :: response_body

definition SYSTEM_PROMPT :: string where
  "SYSTEM_PROMPT =
     ''You are a helpful AI assistant integrated into a task management application. \<newline>'' @
     ''You can help users with:\<newline>'' @
     ''1. General questions and conversation\<newline>'' @
     ''2. Task management advice (creating, organizing, prioritizing tasks)\<newline>'' @
     ''3. Productivity tips and suggestions\<newline>'' @
     ''4. Answering questions about how to use the task manager\<newline>'' @
     ''\<newline>'' @
     ''Be friendly, concise, and helpful. When users ask about tasks, provide practical, actionable advice.\<newline>'' @
     ''Keep responses clear and to the point.''"

definition configured :: "string option \<Rightarrow> bool" where
  "configured apiKey =
     (case apiKey of None \<Rightarrow> False | Some k \<Rightarrow> k \<noteq> [] \<and> k \<noteq> ''your-gemini-api-key-here'')"

text \<open>
  \<^verbatim>\<open>slice(-n)\<close> for \<open>n > 0\<close>: the last \<open>n\<close> elements, all of them when there are
  fewer.
\<close>

definition sliceLast :: "nat \<Rightarrow> 'a list \<Rightarrow> 'a list" where
  "sliceLast n xs = drop (length xs - n) xs"

definition toHistoryEntry :: "chat_entry \<Rightarrow> history_entry" where
  "toHistoryEntry msg =
     \<lparr>historyRole = (if role msg = ''user'' then ''user'' else ''model''),
      parts = [content msg]\<rparr>"

definition buildHistory :: "string \<Rightarrow> chat_entry list \<Rightarrow> history_entry list" where
  "buildHistory message chatHistory =
     map toHistoryEntry
       (sliceLast 10
          (filter (\<lambda>msg. role msg \<noteq> ''user'' \<or> content msg \<noteq> message) chatHistory))"

definition messageToSend :: "string \<Rightarrow> history_entry list \<Rightarrow> string" where
  "messageToSend message history =
     (if length history = 0 then SYSTEM_PROMPT @ ''\<newline>\<newline>User: '' @ message else message)"

definition modelNames :: "string list" where
  "modelNames = [''gemini-1.5-flash'', ''gemini-pro'', ''gemini-1.0-pro'', ''gemini-1.5-pro'']"

text \<open>
  The upstream service: \<open>upstream modelName history msg\<close> is what one pass through
  the body of the inner \<^verbatim>\<open>try\<close> gives for that model, the reply text or the
  thrown error. \<open>tryModels\<close> is the \<^verbatim>\<open>for\<close> loop over the model names with its
  variables \<open>lastError\<close> and \<open>text\<close>: it ends by a rethrown error (\<open>Inl\<close>) or with
  the two variables (\<open>Inr\<close>).
\<close>

type_synonym upstream = "string \<Rightarrow> history_entry list \<Rightarrow> string \<Rightarrow> js_error + string"

fun tryModels ::
  "upstream \<Rightarrow> history_entry list \<Rightarrow> string \<Rightarrow> string list \<Rightarrow> js_error option
     \<Rightarrow> js_error + (js_error option \<times> string option)" where
  "tryModels up history msg [] lastError = Inr (lastError, None)"
| "tryModels up history msg (modelName # rest) lastError =
     (case up modelName history msg of
        Inr text \<Rightarrow> Inr (lastError, Some text)
      | Inl err \<Rightarrow>
          (if \<not> messageIncludes err ''not found'' \<and> \<not> messageIncludes err ''404''
           then Inl err
           else tryModels up history msg rest (Some err)))"

text \<open>
  \<^verbatim>\<open>lastError || new Error("No available models found")\<close>, thrown when \<open>text\<close> is
  falsy after the loop (\<^verbatim>\<open>null\<close> or the empty string).
\<close>

definition lastErrorOr :: "js_error option \<Rightarrow> js_error" where
  "lastErrorOr lastError =
     (case lastError of Some err \<Rightarrow> err | None \<Rightarrow> JsError (Some ''No available models found''))"

text \<open>
  The body of the outer \<^verbatim>\<open>try\<close> once the key is known to be configured. A
  \<^verbatim>\<open>chatHistory\<close> without a \<^verbatim>\<open>filter\<close> method raises a \<^verbatim>\<open>TypeError\<close>, whose
  message is the engine's.
\<close>

definition relay :: "upstream \<Rightarrow> js_error + chat_body \<Rightarrow> js_error + response" where
  "relay up request =
     (case request of
        Inl err \<Rightarrow> Inl err
      | Inr b \<Rightarrow>
          (case bodyMessage b of
             None \<Rightarrow>
               Inr \<lparr>httpStatus = 400,
                    body = Failure ''Message is required and must be a string'' None\<rparr>
           | Some message \<Rightarrow>
               if message = []
               then Inr \<lparr>httpStatus = 400,
                         body = Failure ''Message is required and must be a string'' None\<rparr>
               else
                 (case bodyChatHistory b of
                    NotAnArray \<Rightarrow> Inl (JsError (Some ''chatHistory.filter is not a function''))
                  | hf \<Rightarrow>
                      (let chatHistory = (case hf of Entries es \<Rightarrow> es | _ \<Rightarrow> []);
                           history = buildHistory message chatHistory;
                           outgoing = messageToSend message history
                       in case tryModels up history outgoing modelNames None of
                            Inl err \<Rightarrow> Inl err
                          | Inr (lastError, text) \<Rightarrow>
                              (case text of
                                 None \<Rightarrow> Inl (lastErrorOr lastError)
                               | Some t \<Rightarrow>
                                   if t = [] then Inl (lastErrorOr lastError)
                                   else Inr \<lparr>httpStatus = 200, body = Success t\<rparr>)))))"

text \<open>The outer \<^verbatim>\<open>catch\<close>: the thrown error becomes a response.\<close>

definition errorResponse :: "js_error \<Rightarrow> response" where
  "errorResponse error =
     (if messageIncludes error ''API key''
      then \<lparr>httpStatus = 401,
            body = Failure ''Invalid Gemini API key. Please check your .env.local configuration.'' None\<rparr>
      else if messageIncludes error ''quota'' \<or> messageIncludes error ''rate limit''
      then \<lparr>httpStatus = 429,
            body = Failure ''API rate limit exceeded. Please try again later.'' None\<rparr>
      else if messageIncludes error ''not found'' \<or> messageIncludes error ''404''
      then \<lparr>httpStatus = 400,
            body = Failure (''Model not available with your API key. Please: 1) Check your Google AI Studio (https://aistudio.google.com/app/apikey) to see which models are enabled, 2) Make sure you've enabled the Gemini API in Google Cloud Console, 3) Try using 'gemini-pro' or 'gemini-1.0-pro' instead. Contact Google Cloud support if models aren't available.'')
                     (errorMessage error)\<rparr>
      else \<lparr>httpStatus = 500,
            body = Failure
                     (case errorMessage error of
                        None \<Rightarrow> ''An error occurred while processing your request. Please try again.''
                      | Some m \<Rightarrow>
                          if m = [] then ''An error occurred while processing your request. Please try again.''
                          else m)
                     None\<rparr>)"

definition POST :: "string option \<Rightarrow> upstream \<Rightarrow> js_error + chat_body \<Rightarrow> response" where
  "POST apiKey up request =
     (if \<not> configured apiKey
      then \<lparr>httpStatus = 500,
            body = Failure ''Gemini API key is not configured. Please add NEXT_PUBLIC_GEMINI_API_KEY to .env.local'' None\<rparr>
      else case relay up request of
             Inl error \<Rightarrow> errorResponse error
           | Inr resp \<Rightarrow> resp)"

section \<open>Properties named by the specification\<close>

text \<open>The data model's invariant: \<^verbatim>\<open>completedAt\<close> is present iff the task is completed.\<close>

definition taskInvariant :: "task \<Rightarrow> bool" where
  "taskInvariant t = ((completedAt t \<noteq> None) = (status t = Completed))"

definition tasksInvariant :: "task list \<Rightarrow> bool" where
  "tasksInvariant ts = list_all taskInvariant ts"

text \<open>
  The reorder as the specification words it: the dragged task is taken out of the
  list and put back immediately before the target task (\<open>spec_reorder\<close>); and
  the same with the dragged task put back immediately after the target
  (\<open>reorder_after\<close>).
\<close>

fun removeFirst :: "('a \<Rightarrow> bool) \<Rightarrow> 'a list \<Rightarrow> 'a list" where
  "removeFirst p [] = []"
| "removeFirst p (y # ys) = (if p y then ys else y # removeFirst p ys)"

fun insertBefore :: "('a \<Rightarrow> bool) \<Rightarrow> 'a \<Rightarrow> 'a list \<Rightarrow> 'a list" where
  "insertBefore p x [] = [x]"
| "insertBefore p x (y # ys) = (if p y then x # y # ys else y # insertBefore p x ys)"

fun insertAfter :: "('a \<Rightarrow> bool) \<Rightarrow> 'a \<Rightarrow> 'a list \<Rightarrow> 'a list" where
  "insertAfter p x [] = [x]"
| "insertAfter p x (y # ys) = (if p y then y # x # ys else y # insertAfter p x ys)"

definition spec_reorder :: "int \<Rightarrow> int \<Rightarrow> task list \<Rightarrow> task list" where
  "spec_reorder draggedId targetId ts =
     (case find (\<lambda>t. taskId t = draggedId) ts of
        None \<Rightarrow> ts
      | Some dragged \<Rightarrow>
          insertBefore (\<lambda>t. taskId t = targetId) dragged
            (removeFirst (\<lambda>t. taskId t = draggedId) ts))"

definition reorder_after :: "int \<Rightarrow> int \<Rightarrow> task list \<Rightarrow> task list" where
  "reorder_after draggedId targetId ts =
     (case find (\<lambda>t. taskId t = draggedId) ts of
        None \<Rightarrow> ts
      | Some dragged \<Rightarrow>
          insertAfter (\<lambda>t. taskId t = targetId) dragged
            (removeFirst (\<lambda>t. taskId t = draggedId) ts))"

text \<open>
  The order that sorting by due date is to establish: a task without a due date
  comes before such tasks only, and of two tasks with a due date the earlier
  comes first.
\<close>

definition dueBefore :: "(string \<Rightarrow> int option) \<Rightarrow> task \<Rightarrow> task \<Rightarrow> bool" where
  "dueBefore getTime a b =
     (if noDueDate a then noDueDate b
      else noDueDate b
           \<or> (\<exists>x y. dueTime getTime a = Some x \<and> dueTime getTime b = Some y \<and> x \<le> y))"

text \<open>The errors on which the relay goes on to the next model.\<close>

definition notFoundClass :: "js_error \<Rightarrow> bool" where
  "notFoundClass err = (messageIncludes err ''not found'' \<or> messageIncludes err ''404'')"

section \<open>Helper lemmas\<close>

subsection \<open>The invariant under the list operations\<close>

lemma tasksInvariant_map:
  "tasksInvariant ts \<Longrightarrow> (\<And>t. taskInvariant t \<Longrightarrow> taskInvariant (f t)) \<Longrightarrow> tasksInvariant (map f ts)"
  by (simp add: tasksInvariant_def list_all_iff)

lemma tasksInvariant_filter: "tasksInvariant ts \<Longrightarrow> tasksInvariant (filter P ts)"
  by (simp add: tasksInvariant_def list_all_iff)

lemma tasksInvariant_snoc: "tasksInvariant ts \<Longrightarrow> taskInvariant t \<Longrightarrow> tasksInvariant (ts @ [t])"
  by (simp add: tasksInvariant_def)

lemma inv_handleAddTask: "tasksInvariant (tasks s) \<Longrightarrow> tasksInvariant (tasks (handleAddTask trim now s))"
  by (simp add: handleAddTask_def Let_def tasksInvariant_snoc taskInvariant_def)

lemma inv_toggleTaskStatus: "tasksInvariant (tasks s) \<Longrightarrow> tasksInvariant (tasks (toggleTaskStatus now i s))"
  by (auto simp: toggleTaskStatus_def tasksInvariant_def list_all_iff taskInvariant_def split: if_splits)

lemma inv_handleDeleteTask: "tasksInvariant (tasks s) \<Longrightarrow> tasksInvariant (tasks (handleDeleteTask i s))"
  by (simp add: handleDeleteTask_def tasksInvariant_filter)

lemma inv_addSubtask: "tasksInvariant (tasks s) \<Longrightarrow> tasksInvariant (tasks (addSubtask trim now i n s))"
  by (auto simp: addSubtask_def Let_def tasksInvariant_def list_all_iff taskInvariant_def)

lemma inv_toggleSubtask: "tasksInvariant (tasks s) \<Longrightarrow> tasksInvariant (tasks (toggleSubtask i j s))"
  by (auto simp: toggleSubtask_def tasksInvariant_def list_all_iff taskInvariant_def)

lemma inv_deleteSubtask: "tasksInvariant (tasks s) \<Longrightarrow> tasksInvariant (tasks (deleteSubtask i j s))"
  by (auto simp: deleteSubtask_def tasksInvariant_def list_all_iff taskInvariant_def)

lemma inv_bulkDelete: "tasksInvariant (tasks s) \<Longrightarrow> tasksInvariant (tasks (bulkDelete s))"
  by (simp add: bulkDelete_def tasksInvariant_filter)

lemma inv_bulkComplete: "tasksInvariant (tasks s) \<Longrightarrow> tasksInvariant (tasks (bulkComplete now s))"
  by (auto simp: bulkComplete_def tasksInvariant_def list_all_iff taskInvariant_def)

lemma inv_bulkUpdatePriority: "tasksInvariant (tasks s) \<Longrightarrow> tasksInvariant (tasks (bulkUpdatePriority p s))"
  by (auto simp: bulkUpdatePriority_def tasksInvariant_def list_all_iff taskInvariant_def)

lemma inv_useTemplate: "tasksInvariant (tasks s) \<Longrightarrow> tasksInvariant (tasks (useTemplate now tpl s))"
  by (simp add: useTemplate_def Let_def tasksInvariant_snoc taskInvariant_def)

lemma inv_handleUpdateTask:
  "tasksInvariant (tasks s) \<Longrightarrow> upd_status u = None \<Longrightarrow> upd_completedAt u = None
     \<Longrightarrow> tasksInvariant (tasks (handleUpdateTask i u s))"
  by (auto simp: handleUpdateTask_def tasksInvariant_def list_all_iff taskInvariant_def merge_def override_def)

lemma set_spliceDelete1: "set (snd (spliceDelete1 k xs)) \<subseteq> set xs"
  by (auto simp: spliceDelete1_def Let_def dest: in_set_takeD in_set_dropD)

lemma set_spliceDelete1_fst: "set (fst (spliceDelete1 k xs)) \<subseteq> set xs"
  by (auto simp: spliceDelete1_def Let_def dest: in_set_takeD in_set_dropD)

lemma set_spliceInsert: "set (spliceInsert k x xs) \<subseteq> insert x (set xs)"
  by (auto simp: spliceInsert_def Let_def dest: in_set_takeD in_set_dropD)

lemma set_onDrop: "onDrop d t s = Some s' \<Longrightarrow> set (tasks s') \<subseteq> set (tasks s)"
  using set_spliceDelete1[of "findIndex (\<lambda>t. Some (taskId t) = d) (tasks s)" "tasks s"]
        set_spliceDelete1_fst[of "findIndex (\<lambda>t. Some (taskId t) = d) (tasks s)" "tasks s"]
  by (auto simp: onDrop_def Let_def split: if_splits prod.splits list.splits dest!: subsetD[OF set_spliceInsert])

lemma inv_onDrop: "tasksInvariant (tasks s) \<Longrightarrow> onDrop d t s = Some s' \<Longrightarrow> tasksInvariant (tasks s')"
  using set_onDrop[of d t s s'] by (auto simp: tasksInvariant_def list_all_iff)

lemma isArray_iff: "isArray d = (\<exists>ts. d = JArray ts)"
  by (cases d) auto

lemma inv_importTasks_array:
  "isArray doc \<Longrightarrow>
   tasksInvariant (tasks (fst (importTasks (Some (Parsed doc)) s))) = tasksInvariant (elements doc)"
  by (simp add: importTasks_def)

lemma twoTasks:
  "tasks (toggleTaskStatus 6 2 (toggleTaskStatus 5 2 (mountedPage 0 None))) =
     [\<lparr>taskId = 1, title = ''Study DSA'', description = None, status = Pending,
       priority = Medium, dueDate = None, category = None, subtasks = [],
       createdAt = 0, completedAt = None\<rparr>,
      \<lparr>taskId = 2, title = ''Build To-Do App'', description = None, status = Completed,
       priority = High, dueDate = None, category = None, subtasks = [],
       createdAt = 0, completedAt = Some 6\<rparr>]"
  by (simp add: toggleTaskStatus_def mountedPage_def loadTasks_def seedTasks_def initialPage_def)

subsection \<open>Toggling twice\<close>

lemma toggle_twice_eq:
  "toggleTaskStatus now2 i (toggleTaskStatus now1 i s) =
     s\<lparr>tasks :=
         map (\<lambda>task.
               if taskId task = i
               then task\<lparr>completedAt := (if status task = Completed then Some now2 else None)\<rparr>
               else task)
           (tasks s)\<rparr>"
proof -
  have "map ((\<lambda>task. if taskId task = i
                     then task\<lparr>status := (if status task = Pending then Completed else Pending),
                               completedAt := (if status task = Pending then Some now2 else None)\<rparr>
                     else task)
             \<circ> (\<lambda>task. if taskId task = i
                     then task\<lparr>status := (if status task = Pending then Completed else Pending),
                               completedAt := (if status task = Pending then Some now1 else None)\<rparr>
                     else task)) (tasks s)
        = map (\<lambda>task. if taskId task = i
               then task\<lparr>completedAt := (if status task = Completed then Some now2 else None)\<rparr>
               else task) (tasks s)"
  proof (rule map_cong[OF refl])
    fix x assume "x \<in> set (tasks s)"
    show "((\<lambda>task. if taskId task = i
                     then task\<lparr>status := (if status task = Pending then Completed else Pending),
                               completedAt := (if status task = Pending then Some now2 else None)\<rparr>
                     else task)
             \<circ> (\<lambda>task. if taskId task = i
                     then task\<lparr>status := (if status task = Pending then Completed else Pending),
                               completedAt := (if status task = Pending then Some now1 else None)\<rparr>
                     else task)) x
        = (if taskId x = i
               then x\<lparr>completedAt := (if status x = Completed then Some now2 else None)\<rparr>
               else x)"
      by (cases "status x") auto
  qed
  then show ?thesis
    by (simp add: toggleTaskStatus_def)
qed

subsection \<open>The sort keeps the elements\<close>

lemma mset_insertSorted: "mset (insertSorted cmp x ys) = add_mset x (mset ys)"
  by (induction ys) auto

lemma mset_sortWith: "mset (sortWith cmp xs) = mset xs"
  by (induction xs) (auto simp: sortWith_def mset_insertSorted)

lemma set_sortWith: "set (sortWith cmp xs) = set xs"
  using mset_sortWith[of cmp xs] by (metis set_mset_mset)

lemma filterTask_iff:
  "filterTask toLowerCase f q t =
     ((f = FilterAll \<or> (f = FilterPending \<and> status t = Pending)
         \<or> (f = FilterCompleted \<and> status t = Completed))
      \<and> (q = [] \<or> searchMatches toLowerCase q t))"
  by (cases f; cases "status t") (auto simp: filterTask_def)

subsection \<open>Drag and drop\<close>

lemma findIndex_first:
  "\<forall>a\<in>set as. \<not> p a \<Longrightarrow> p x \<Longrightarrow> findIndex p (as @ x # bs) = int (length as)"
  by (induction as) (auto simp: Let_def)

lemma find_first:
  "\<forall>a\<in>set as. \<not> p a \<Longrightarrow> p x \<Longrightarrow> find p (as @ x # bs) = Some x"
  by (induction as) auto

lemma removeFirst_first:
  "\<forall>a\<in>set as. \<not> p a \<Longrightarrow> p x \<Longrightarrow> removeFirst p (as @ x # bs) = as @ bs"
  by (induction as) auto

lemma insertBefore_first:
  "\<forall>a\<in>set as. \<not> p a \<Longrightarrow> p y \<Longrightarrow> insertBefore p x (as @ y # bs) = as @ x # y # bs"
  by (induction as) auto

lemma insertAfter_first:
  "\<forall>a\<in>set as. \<not> p a \<Longrightarrow> p y \<Longrightarrow> insertAfter p x (as @ y # bs) = as @ y # x # bs"
  by (induction as) auto

lemma spliceDelete1_at: "spliceDelete1 (int (length as)) (as @ x # bs) = ([x], as @ bs)"
  by (simp add: spliceDelete1_def spliceStart_def)

lemma spliceInsert_at: "spliceInsert (int (length as)) x (as @ bs) = as @ x # bs"
  by (simp add: spliceInsert_def spliceStart_def)

lemma onDrop_unfold:
  "d \<noteq> t \<Longrightarrow>
   onDrop (Some d) t s =
     (case spliceDelete1 (findIndex (\<lambda>a. taskId a = d) (tasks s)) (tasks s) of
        ([], rest) \<Rightarrow> None
      | (dragged # _, rest) \<Rightarrow>
          Some (s\<lparr>tasks := spliceInsert (findIndex (\<lambda>a. taskId a = t) (tasks s)) dragged rest\<rparr>))"
  by (simp add: onDrop_def Let_def)

lemma onDrop_target_first:
  assumes "\<forall>a\<in>set as1. taskId a \<noteq> t" "taskId y = t" "\<forall>a\<in>set (as1 @ y # as2). taskId a \<noteq> d"
    "taskId x = d" "tasks s = as1 @ y # as2 @ x # bs"
  shows "onDrop (Some d) t s = Some (s\<lparr>tasks := as1 @ x # y # as2 @ bs\<rparr>)"
    and "spec_reorder d t (tasks s) = as1 @ x # y # as2 @ bs"
    and "findIndex (\<lambda>a. taskId a = t) (tasks s) < findIndex (\<lambda>a. taskId a = d) (tasks s)"
    and "findIndex (\<lambda>a. taskId a = t) (tasks s) = int (length as1)"
proof -
  have dt: "d \<noteq> t" using assms by auto
  have j: "findIndex (\<lambda>a. taskId a = t) (tasks s) = int (length as1)"
    using assms by (simp add: findIndex_first)
  have i: "findIndex (\<lambda>a. taskId a = d) (tasks s) = int (length (as1 @ y # as2))"
    using findIndex_first[of "as1 @ y # as2" "\<lambda>a. taskId a = d" x bs] assms by simp
  have del: "spliceDelete1 (int (length (as1 @ y # as2))) (tasks s) = ([x], (as1 @ y # as2) @ bs)"
    using spliceDelete1_at[of "as1 @ y # as2" x bs] assms by simp
  have ins: "spliceInsert (int (length as1)) x (as1 @ y # as2 @ bs) = as1 @ x # y # as2 @ bs"
    by (rule spliceInsert_at)
  show "onDrop (Some d) t s = Some (s\<lparr>tasks := as1 @ x # y # as2 @ bs\<rparr>)"
    unfolding onDrop_unfold[OF dt] i j del using ins by simp
  have f: "find (\<lambda>a. taskId a = d) (tasks s) = Some x"
    using find_first[of "as1 @ y # as2" "\<lambda>a. taskId a = d" x bs] assms by simp
  have r: "removeFirst (\<lambda>a. taskId a = d) (tasks s) = (as1 @ y # as2) @ bs"
    using removeFirst_first[of "as1 @ y # as2" "\<lambda>a. taskId a = d" x bs] assms by simp
  have "insertBefore (\<lambda>a. taskId a = t) x (as1 @ y # (as2 @ bs)) = as1 @ x # y # (as2 @ bs)"
    using assms(1,2) by (rule insertBefore_first)
  then show "spec_reorder d t (tasks s) = as1 @ x # y # as2 @ bs"
    unfolding spec_reorder_def f r by simp
  show "findIndex (\<lambda>a. taskId a = t) (tasks s) < findIndex (\<lambda>a. taskId a = d) (tasks s)"
    by (simp add: i j)
  show "findIndex (\<lambda>a. taskId a = t) (tasks s) = int (length as1)" by (rule j)
qed

lemma onDrop_dragged_first:
  assumes "\<forall>a\<in>set as. taskId a \<noteq> d" "taskId x = d" "\<forall>a\<in>set (as @ x # bs1). taskId a \<noteq> t"
    "taskId y = t" "tasks s = as @ x # bs1 @ y # bs2"
  shows "onDrop (Some d) t s = Some (s\<lparr>tasks := as @ bs1 @ y # x # bs2\<rparr>)"
    and "reorder_after d t (tasks s) = as @ bs1 @ y # x # bs2"
    and "\<not> findIndex (\<lambda>a. taskId a = t) (tasks s) < findIndex (\<lambda>a. taskId a = d) (tasks s)"
    and "findIndex (\<lambda>a. taskId a = t) (tasks s) = int (length (as @ bs1 @ [y]))"
proof -
  have dt: "d \<noteq> t" using assms by auto
  have i: "findIndex (\<lambda>a. taskId a = d) (tasks s) = int (length as)"
    using assms by (simp add: findIndex_first)
  have j: "findIndex (\<lambda>a. taskId a = t) (tasks s) = int (length (as @ bs1 @ [y]))"
    using findIndex_first[of "as @ x # bs1" "\<lambda>a. taskId a = t" y bs2] assms by simp
  have del: "spliceDelete1 (int (length as)) (tasks s) = ([x], as @ bs1 @ y # bs2)"
    using spliceDelete1_at[of as x "bs1 @ y # bs2"] assms by simp
  have ins: "spliceInsert (int (length (as @ bs1 @ [y]))) x ((as @ bs1 @ [y]) @ bs2)
               = (as @ bs1 @ [y]) @ x # bs2"
    by (rule spliceInsert_at)
  show "onDrop (Some d) t s = Some (s\<lparr>tasks := as @ bs1 @ y # x # bs2\<rparr>)"
    unfolding onDrop_unfold[OF dt] i j del using ins by simp
  have f: "find (\<lambda>a. taskId a = d) (tasks s) = Some x"
    unfolding assms(5) using assms(1,2) by (rule find_first)
  have r: "removeFirst (\<lambda>a. taskId a = d) (tasks s) = as @ bs1 @ y # bs2"
    unfolding assms(5) using assms(1,2) by (rule removeFirst_first)
  have "insertAfter (\<lambda>a. taskId a = t) x ((as @ bs1) @ y # bs2) = (as @ bs1) @ y # x # bs2"
    using assms by (intro insertAfter_first) auto
  then show "reorder_after d t (tasks s) = as @ bs1 @ y # x # bs2"
    unfolding reorder_after_def f r by simp
  show "\<not> findIndex (\<lambda>a. taskId a = t) (tasks s) < findIndex (\<lambda>a. taskId a = d) (tasks s)"
    by (simp add: i j)
  show "findIndex (\<lambda>a. taskId a = t) (tasks s) = int (length (as @ bs1 @ [y]))" by (rule j)
qed

lemma onDrop_cases:
  assumes "d \<noteq> t" "\<exists>x\<in>set (tasks s). taskId x = d" "\<exists>x\<in>set (tasks s). taskId x = t"
  shows "onDrop (Some d) t s =
       Some (s\<lparr>tasks :=
                (if findIndex (\<lambda>a. taskId a = t) (tasks s) < findIndex (\<lambda>a. taskId a = d) (tasks s)
                 then spec_reorder d t (tasks s)
                 else reorder_after d t (tasks s))\<rparr>)
     \<and> find (\<lambda>a. taskId a = d) (tasks s) =
         Some ((if findIndex (\<lambda>a. taskId a = t) (tasks s) < findIndex (\<lambda>a. taskId a = d) (tasks s)
                then spec_reorder d t (tasks s)
                else reorder_after d t (tasks s))
               ! nat (findIndex (\<lambda>a. taskId a = t) (tasks s)))"
proof -
  from split_list_first_prop[OF assms(2)]
  obtain as x bs where d: "tasks s = as @ x # bs" "taskId x = d" "\<forall>a\<in>set as. taskId a \<noteq> d"
    by blast
  have f: "find (\<lambda>a. taskId a = d) (tasks s) = Some x"
    unfolding d(1) using d(3,2) by (rule find_first)
  show ?thesis
  proof (cases "\<exists>a\<in>set as. taskId a = t")
    case True
    from split_list_first_prop[OF True]
    obtain as1 y as2 where t: "as = as1 @ y # as2" "taskId y = t" "\<forall>a\<in>set as1. taskId a \<noteq> t"
      by blast
    have nd: "\<forall>a\<in>set (as1 @ y # as2). taskId a \<noteq> d" using d t by simp
    have ts: "tasks s = as1 @ y # as2 @ x # bs" using d t by simp
    note r = onDrop_target_first[OF t(3) t(2) nd d(2) ts]
    have "(as1 @ x # y # as2 @ bs) ! nat (int (length as1)) = x" by simp
    with r f show ?thesis by simp
  next
    case False
    with assms d have "\<exists>a\<in>set bs. taskId a = t" by auto
    from split_list_first_prop[OF this]
    obtain bs1 y bs2 where t: "bs = bs1 @ y # bs2" "taskId y = t" "\<forall>a\<in>set bs1. taskId a \<noteq> t"
      by blast
    have nt: "\<forall>a\<in>set (as @ x # bs1). taskId a \<noteq> t" using False d t assms by auto
    have ts: "tasks s = as @ x # bs1 @ y # bs2" using d t by simp
    note r = onDrop_dragged_first[OF d(3) d(2) nt t(2) ts]
    have "((as @ bs1 @ [y]) @ x # bs2) ! nat (int (length (as @ bs1 @ [y]))) = x"
      unfolding nat_int by (rule nth_append_length)
    then have "(as @ bs1 @ y # x # bs2) ! nat (int (length (as @ bs1 @ [y]))) = x" by simp
    with r f show ?thesis by simp
  qed
qed

lemma onDrop_same: "onDrop (Some t) t s = Some s"
  by (simp add: onDrop_def)

lemma seed_page: "tasks (mountedPage 0 None) = seedTasks 0"
  by (simp add: mountedPage_def loadTasks_def)

lemma mset_take_drop: "mset (take n xs) + mset (drop n xs) = mset xs"
  by (metis append_take_drop_id mset_append)

lemma mset_take1_drop: "mset (take 1 (drop n xs)) + mset (drop (n + 1) xs) = mset (drop n xs)"
proof -
  have "drop (n + 1) xs = drop 1 (drop n xs)" by simp
  then show ?thesis by (metis append_take_drop_id mset_append)
qed

lemma mset_spliceDelete1:
  "mset (fst (spliceDelete1 k xs)) + mset (snd (spliceDelete1 k xs)) = mset xs"
proof -
  let ?n = "spliceStart k (length xs)"
  have "mset (take 1 (drop ?n xs)) + (mset (take ?n xs) + mset (drop (?n + 1) xs)) = mset xs"
    using mset_take_drop[of ?n xs] mset_take1_drop[of ?n xs] by (metis add.left_commute)
  then show ?thesis
    by (simp add: spliceDelete1_def Let_def)
qed

lemma mset_spliceInsert: "mset (spliceInsert k x xs) = add_mset x (mset xs)"
  by (simp add: spliceInsert_def Let_def mset_take_drop)

lemma mset_onDrop:
  assumes "onDrop d t s = Some s'"
  shows "mset (tasks s') = mset (tasks s)"
proof (cases "d = Some t")
  case True
  with assms show ?thesis by (simp add: onDrop_def)
next
  case False
  let ?k = "findIndex (\<lambda>a. Some (taskId a) = d) (tasks s)"
  obtain removed rest where sp: "spliceDelete1 ?k (tasks s) = (removed, rest)"
    by (cases "spliceDelete1 ?k (tasks s)") auto
  have "length removed \<le> 1"
    using sp by (auto simp: spliceDelete1_def Let_def)
  moreover from assms False sp obtain dragged more where
    "removed = dragged # more"
    and s': "tasks s' = spliceInsert (findIndex (\<lambda>a. taskId a = t) (tasks s)) dragged rest"
    by (auto simp: onDrop_def Let_def split: list.splits)
  ultimately have r: "removed = [dragged]" by simp
  from mset_spliceDelete1[of ?k "tasks s"] sp r
  have "add_mset dragged (mset rest) = mset (tasks s)" by simp
  then show ?thesis by (simp add: s' mset_spliceInsert)
qed

subsection \<open>Sorting with a comparator\<close>

lemma set_insertSorted: "set (insertSorted cmp x ys) = insert x (set ys)"
  by (induction ys) auto

lemma sorted_wrt_insertSorted:
  assumes tot: "\<And>a b. a \<in> S \<Longrightarrow> b \<in> S \<Longrightarrow> comparison cmp a b \<le> 0 \<or> comparison cmp b a \<le> 0"
    and tr: "\<And>a b c. a \<in> S \<Longrightarrow> b \<in> S \<Longrightarrow> c \<in> S \<Longrightarrow> comparison cmp a b \<le> 0
                \<Longrightarrow> comparison cmp b c \<le> 0 \<Longrightarrow> comparison cmp a c \<le> 0"
    and "x \<in> S" "set ys \<subseteq> S"
    and "sorted_wrt (\<lambda>a b. comparison cmp a b \<le> 0) ys"
  shows "sorted_wrt (\<lambda>a b. comparison cmp a b \<le> 0) (insertSorted cmp x ys)"
  using assms(3-)
proof (induction ys)
  case Nil
  then show ?case by simp
next
  case (Cons y ys)
  show ?case
  proof (cases "comparison cmp x y \<le> 0")
    case True
    have "\<forall>z\<in>set ys. comparison cmp x z \<le> 0"
    proof
      fix z assume z: "z \<in> set ys"
      with Cons.prems have "comparison cmp y z \<le> 0" by simp
      with True show "comparison cmp x z \<le> 0"
        using tr[of x y z] Cons.prems z by auto
    qed
    with True Cons.prems show ?thesis by simp
  next
    case False
    with tot[of x y] Cons.prems have "comparison cmp y x \<le> 0" by auto
    moreover have "sorted_wrt (\<lambda>a b. comparison cmp a b \<le> 0) (insertSorted cmp x ys)"
      using Cons by simp
    ultimately show ?thesis using False Cons.prems by (simp add: set_insertSorted)
  qed
qed

lemma sorted_wrt_sortWith:
  assumes tot: "\<And>a b. a \<in> S \<Longrightarrow> b \<in> S \<Longrightarrow> comparison cmp a b \<le> 0 \<or> comparison cmp b a \<le> 0"
    and tr: "\<And>a b c. a \<in> S \<Longrightarrow> b \<in> S \<Longrightarrow> c \<in> S \<Longrightarrow> comparison cmp a b \<le> 0
                \<Longrightarrow> comparison cmp b c \<le> 0 \<Longrightarrow> comparison cmp a c \<le> 0"
    and "set xs \<subseteq> S"
  shows "sorted_wrt (\<lambda>a b. comparison cmp a b \<le> 0) (sortWith cmp xs)"
  using assms(3)
proof (induction xs)
  case Nil
  then show ?case by (simp add: sortWith_def)
next
  case (Cons x xs)
  have s: "set (sortWith cmp xs) \<subseteq> S"
    using Cons.prems by (induction xs) (auto simp: sortWith_def set_insertSorted)
  have x: "x \<in> S" using Cons.prems by simp
  have "sorted_wrt (\<lambda>a b. comparison cmp a b \<le> 0) (sortWith cmp xs)"
    using Cons by simp
  then have "sorted_wrt (\<lambda>a b. comparison cmp a b \<le> 0) (insertSorted cmp x (sortWith cmp xs))"
    using tot tr x s by (rule sorted_wrt_insertSorted[where S=S, rotated 4])
  then show ?case by (simp add: sortWith_def)
qed

lemma dueDate_comparison:
  assumes "\<not> noDueDate a \<longrightarrow> dueTime getTime a \<noteq> None"
    and "\<not> noDueDate b \<longrightarrow> dueTime getTime b \<noteq> None"
  shows "(comparison (compareTasks getTime lc SortDueDate) a b \<le> 0) = dueBefore getTime a b"
proof (cases "noDueDate a"; cases "noDueDate b")
  assume "\<not> noDueDate a" "\<not> noDueDate b"
  with assms obtain x y where "dueTime getTime a = Some x" "dueTime getTime b = Some y"
    by auto
  then show ?thesis
    using \<open>\<not> noDueDate a\<close> \<open>\<not> noDueDate b\<close>
    by (simp add: comparison_def compareTasks_def dueBefore_def)
qed (simp_all add: comparison_def compareTasks_def dueBefore_def)

lemma dueBefore_total:
  assumes "\<not> noDueDate a \<longrightarrow> dueTime getTime a \<noteq> None"
    and "\<not> noDueDate b \<longrightarrow> dueTime getTime b \<noteq> None"
  shows "dueBefore getTime a b \<or> dueBefore getTime b a"
proof (cases "noDueDate a"; cases "noDueDate b")
  assume n: "\<not> noDueDate a" "\<not> noDueDate b"
  with assms obtain x y where "dueTime getTime a = Some x" "dueTime getTime b = Some y"
    by auto
  then show ?thesis using n by (simp add: dueBefore_def) linarith
qed (simp_all add: dueBefore_def)

lemma dueBefore_trans:
  assumes "dueBefore getTime a b" "dueBefore getTime b c"
  shows "dueBefore getTime a c"
proof (cases "noDueDate c")
  case True
  then show ?thesis by (simp add: dueBefore_def)
next
  case False
  with assms(2) have b: "\<not> noDueDate b" by (auto simp: dueBefore_def split: if_splits)
  with assms(1) have a: "\<not> noDueDate a" by (auto simp: dueBefore_def split: if_splits)
  from assms a b False show ?thesis by (auto simp: dueBefore_def)
qed

lemma sortWith_dueDate_sorted:
  assumes "\<forall>t\<in>set xs. \<not> noDueDate t \<longrightarrow> dueTime getTime t \<noteq> None"
  shows "sorted_wrt (dueBefore getTime) (sortWith (compareTasks getTime lc SortDueDate) xs)"
proof -
  let ?S = "{t. \<not> noDueDate t \<longrightarrow> dueTime getTime t \<noteq> None}"
  let ?cmp = "compareTasks getTime lc SortDueDate"
  have e: "\<And>a b. a \<in> ?S \<Longrightarrow> b \<in> ?S \<Longrightarrow> (comparison ?cmp a b \<le> 0) = dueBefore getTime a b"
    using dueDate_comparison by simp
  have "sorted_wrt (\<lambda>a b. comparison ?cmp a b \<le> 0) (sortWith ?cmp xs)"
  proof (rule sorted_wrt_sortWith[where S = ?S])
    fix a b assume "a \<in> ?S" "b \<in> ?S"
    then show "comparison ?cmp a b \<le> 0 \<or> comparison ?cmp b a \<le> 0"
      using dueBefore_total[of a getTime b] by (simp add: e)
  next
    fix a b c assume "a \<in> ?S" "b \<in> ?S" "c \<in> ?S"
      "comparison ?cmp a b \<le> 0" "comparison ?cmp b c \<le> 0"
    then show "comparison ?cmp a c \<le> 0"
      using dueBefore_trans[of getTime a b c] by (simp add: e)
  next
    show "set xs \<subseteq> ?S" using assms by auto
  qed
  moreover have "set (sortWith ?cmp xs) \<subseteq> ?S"
    using assms by (auto simp: set_sortWith)
  ultimately show ?thesis
    using e by (auto simp: sorted_wrt_iff_nth_less subset_iff)
qed

subsection \<open>The relay and its fallback loop\<close>

lemma tryModels_cong:
  "\<forall>n\<in>set names. up' n H M = up n H M \<Longrightarrow> tryModels up' H M names e = tryModels up H M names e"
  by (induction names arbitrary: e) (auto split: sum.splits)

lemma length_sliceLast: "length (sliceLast n xs) \<le> n"
  by (simp add: sliceLast_def)

lemma relay_unfold:
  assumes "bodyMessage b = Some message" "message \<noteq> []"
    "bodyChatHistory b = Entries es \<or> bodyChatHistory b = Absent \<and> es = []"
  shows "relay up (Inr b) =
     (case tryModels up (buildHistory message es)
             (messageToSend message (buildHistory message es)) modelNames None of
        Inl err \<Rightarrow> Inl err
      | Inr (lastError, text) \<Rightarrow>
          (case text of
             None \<Rightarrow> Inl (lastErrorOr lastError)
           | Some t \<Rightarrow>
               if t = [] then Inl (lastErrorOr lastError)
               else Inr \<lparr>httpStatus = 200, body = Success t\<rparr>))"
  using assms by (auto simp: relay_def Let_def)

lemma tryModels_success:
  assumes "\<forall>k < length pre. \<exists>err. up (pre ! k) H M = Inl err \<and> notFoundClass err"
    and "up n H M = Inr text"
  shows "\<exists>e'. tryModels up H M (pre @ n # post) e = Inr (e', Some text)"
  using assms(1)
proof (induction pre arbitrary: e)
  case Nil
  then show ?case using assms(2) by simp
next
  case (Cons a pre)
  from Cons.prems[rule_format, of 0] obtain err where
    a: "up a H M = Inl err" "notFoundClass err" by auto
  have "\<forall>k < length pre. \<exists>err. up (pre ! k) H M = Inl err \<and> notFoundClass err"
    using Cons.prems by auto
  from Cons.IH[OF this, of "Some err"] a show ?case
    by (auto simp: notFoundClass_def)
qed

lemma tryModels_stop:
  assumes "\<forall>k < length pre. \<exists>err. up (pre ! k) H M = Inl err \<and> notFoundClass err"
    and "up n H M = Inl err" "\<not> notFoundClass err"
  shows "tryModels up H M (pre @ n # post) e = Inl err"
  using assms(1)
proof (induction pre arbitrary: e)
  case Nil
  then show ?case using assms(2,3) by (simp add: notFoundClass_def)
next
  case (Cons a pre)
  from Cons.prems[rule_format, of 0] obtain err' where
    a: "up a H M = Inl err'" "notFoundClass err'" by auto
  have "\<forall>k < length pre. \<exists>err. up (pre ! k) H M = Inl err \<and> notFoundClass err"
    using Cons.prems by auto
  from Cons.IH[OF this, of "Some err'"] a show ?case
    by (auto simp: notFoundClass_def)
qed

lemma fallback_policy:
  assumes "configured apiKey" and "bodyMessage b = Some message" and "message \<noteq> []"
    and "bodyChatHistory b = Entries es \<or> bodyChatHistory b = Absent \<and> es = []"
    and "modelNames = pre @ n # post"
    and "\<forall>k < length pre.
          \<exists>err. up (pre ! k) (buildHistory message es)
                  (messageToSend message (buildHistory message es)) = Inl err
                \<and> notFoundClass err"
  shows "up n (buildHistory message es) (messageToSend message (buildHistory message es)) = Inr text
           \<Longrightarrow> text \<noteq> []
           \<Longrightarrow> POST apiKey up (Inr b) = \<lparr>httpStatus = 200, body = Success text\<rparr>"
    and "up n (buildHistory message es) (messageToSend message (buildHistory message es)) = Inl err
           \<Longrightarrow> \<not> notFoundClass err
           \<Longrightarrow> POST apiKey up (Inr b) = errorResponse err"
proof -
  let ?H = "buildHistory message es"
  let ?M = "messageToSend message ?H"
  note r = relay_unfold[OF assms(2,3,4)]
  show "POST apiKey up (Inr b) = \<lparr>httpStatus = 200, body = Success text\<rparr>"
    if "up n ?H ?M = Inr text" "text \<noteq> []"
    using tryModels_success[where up = up and pre = pre and H = ?H and M = ?M and n = n
            and post = post and e = None, OF assms(6) that(1)] that(2) assms(1,5)
    by (auto simp: POST_def r)
  show "POST apiKey up (Inr b) = errorResponse err"
    if "up n ?H ?M = Inl err" "\<not> notFoundClass err"
    using tryModels_stop[where up = up and pre = pre and H = ?H and M = ?M and n = n
            and post = post and e = None, OF assms(6) that] assms(1,5)
    by (simp add: POST_def r)
qed

section \<open>The claims\<close>

subsection \<open>C1: the completion stamp and the status\<close>

text \<open>
  C1 says that in every reachable task list each task has \<^verbatim>\<open>completedAt\<close> present
  iff its status is \<^verbatim>\<open>Completed\<close>, the seed list and every imported array
  included. Counterexample to C1: the seed list that an empty storage gives holds
  a completed task without \<^verbatim>\<open>completedAt\<close>, and an imported array is installed
  as it is, here with a pending task that carries \<^verbatim>\<open>completedAt\<close>.
\<close>

theorem seed_and_import_break_invariant:
  "\<not> tasksInvariant (tasks (mountedPage 0 None))
   \<and> \<not> tasksInvariant
         (tasks (fst (importTasks
            (Some (Parsed (JArray
               [\<lparr>taskId = 1, title = ''x'', description = None, status = Pending,
                 priority = Low, dueDate = None, category = None, subtasks = [],
                 createdAt = 1, completedAt = Some 1\<rparr>])))
            initialPage)))"
  by (simp add: mountedPage_def loadTasks_def seedTasks_def tasksInvariant_def taskInvariant_def
        importTasks_def)

text \<open>
  C1 as amended: every handler that changes the list keeps the invariant of a list
  that has it: adding a task, toggling, deleting, the subtask operations, the
  three bulk operations, instantiating a template, reordering by drag and drop,
  and an update whose fields include neither \<^verbatim>\<open>status\<close> nor \<^verbatim>\<open>completedAt\<close>.
  After a successful import the list has the invariant exactly when the imported
  array has it.
\<close>

theorem invariant_preserved_by_handlers:
  assumes "tasksInvariant (tasks s)"
  shows "tasksInvariant (tasks (handleAddTask trim now s))
    \<and> tasksInvariant (tasks (toggleTaskStatus now i s))
    \<and> tasksInvariant (tasks (handleDeleteTask i s))
    \<and> tasksInvariant (tasks (addSubtask trim now i newTitle s))
    \<and> tasksInvariant (tasks (toggleSubtask i j s))
    \<and> tasksInvariant (tasks (deleteSubtask i j s))
    \<and> tasksInvariant (tasks (bulkDelete s))
    \<and> tasksInvariant (tasks (bulkComplete now s))
    \<and> tasksInvariant (tasks (bulkUpdatePriority p s))
    \<and> tasksInvariant (tasks (useTemplate now template s))
    \<and> (upd_status u = None \<and> upd_completedAt u = None
          \<longrightarrow> tasksInvariant (tasks (handleUpdateTask i u s)))
    \<and> (onDrop d t s = Some s' \<longrightarrow> tasksInvariant (tasks s'))
    \<and> (isArray doc
          \<longrightarrow> tasksInvariant (tasks (fst (importTasks (Some (Parsed doc)) s)))
                = tasksInvariant (elements doc))"
  using assms
  by (simp add: inv_handleAddTask inv_toggleTaskStatus inv_handleDeleteTask inv_addSubtask
        inv_toggleSubtask inv_deleteSubtask inv_bulkDelete inv_bulkComplete
        inv_bulkUpdatePriority inv_useTemplate inv_handleUpdateTask inv_importTasks_array)
     (blast intro: inv_onDrop)

text \<open>
  Witness for C1 as amended, on the seed list after its second task was toggled
  twice: the invariant holds there and after a bulk completion, a title update,
  a drop of the second task on the first and the import of an empty array.
\<close>

theorem invariant_preserved_by_handlers_witness:
  "tasksInvariant (tasks (toggleTaskStatus 6 2 (toggleTaskStatus 5 2 (mountedPage 0 None))))
   \<and> tasksInvariant
        (tasks (bulkComplete 7 (toggleTaskStatus 6 2 (toggleTaskStatus 5 2 (mountedPage 0 None)))))
   \<and> tasksInvariant
        (tasks (handleUpdateTask 1
           \<lparr>upd_taskId = None, upd_title = Some ''Untitled Task'', upd_description = None,
            upd_status = None, upd_priority = None, upd_dueDate = None, upd_category = None,
            upd_subtasks = None, upd_createdAt = None, upd_completedAt = None\<rparr>
           (toggleTaskStatus 6 2 (toggleTaskStatus 5 2 (mountedPage 0 None)))))
   \<and> onDrop (Some 2) 1 (toggleTaskStatus 6 2 (toggleTaskStatus 5 2 (mountedPage 0 None)))
       = Some ((toggleTaskStatus 6 2 (toggleTaskStatus 5 2 (mountedPage 0 None)))
                \<lparr>tasks := rev (tasks (toggleTaskStatus 6 2 (toggleTaskStatus 5 2 (mountedPage 0 None))))\<rparr>)
   \<and> tasksInvariant (rev (tasks (toggleTaskStatus 6 2 (toggleTaskStatus 5 2 (mountedPage 0 None)))))
   \<and> tasksInvariant
        (tasks (fst (importTasks (Some (Parsed (JArray [])))
           (toggleTaskStatus 6 2 (toggleTaskStatus 5 2 (mountedPage 0 None))))))"
proof -
  let ?s = "toggleTaskStatus 6 2 (toggleTaskStatus 5 2 (mountedPage 0 None))"
  let ?u = "\<lparr>upd_taskId = None, upd_title = Some ''Untitled Task'', upd_description = None,
            upd_status = None, upd_priority = None, upd_dueDate = None, upd_category = None,
            upd_subtasks = None, upd_createdAt = None, upd_completedAt = None\<rparr>"
  have h: "tasksInvariant (tasks ?s)"
    by (simp add: twoTasks tasksInvariant_def taskInvariant_def)
  have d: "onDrop (Some 2) 1 ?s = Some (?s\<lparr>tasks := rev (tasks ?s)\<rparr>)"
    by (simp add: onDrop_def Let_def twoTasks spliceDelete1_def spliceInsert_def spliceStart_def)
  have e: "tasksInvariant (elements (JArray []))"
    by (simp add: tasksInvariant_def)
  from invariant_preserved_by_handlers [OF h, where now = 7 and i = 1 and u = ?u
      and d = "Some 2" and t = 1 and s' = "?s\<lparr>tasks := rev (tasks ?s)\<rparr>"
      and doc = "JArray []"] h d e
  show ?thesis by simp
qed

subsection \<open>C2: status filter and search\<close>

text \<open>
  C2 says that a non-empty search query replaces the status filter, so that the
  search predicate alone decides inclusion. Counterexample to C2: with the filter
  \<^verbatim>\<open>Pending\<close> and the query \<^verbatim>\<open>build\<close>, the completed seed task ``Build To-Do App''
  matches the search and is not in the projection. The lower-casing is given by
  its values on the two seed titles; it leaves the query as it is.
\<close>

theorem search_does_not_replace_status_filter:
  "searchQuery ((mountedPage 0 None)\<lparr>searchQuery := ''build'', filter_type := FilterPending\<rparr>) \<noteq> []
   \<and> tasks ((mountedPage 0 None)\<lparr>searchQuery := ''build'', filter_type := FilterPending\<rparr>) ! 1
       \<in> set (tasks ((mountedPage 0 None)\<lparr>searchQuery := ''build'', filter_type := FilterPending\<rparr>))
   \<and> searchMatches
        (\<lambda>x. if x = ''Build To-Do App'' then ''build to-do app''
             else if x = ''Study DSA'' then ''study dsa'' else x)
        ''build''
        (tasks ((mountedPage 0 None)\<lparr>searchQuery := ''build'', filter_type := FilterPending\<rparr>) ! 1)
   \<and> tasks ((mountedPage 0 None)\<lparr>searchQuery := ''build'', filter_type := FilterPending\<rparr>) ! 1
       \<notin> set (filteredAndSortedTasks
                (\<lambda>x. if x = ''Build To-Do App'' then ''build to-do app''
                     else if x = ''Study DSA'' then ''study dsa'' else x)
                (\<lambda>d. None) (\<lambda>a b. 0)
                ((mountedPage 0 None)\<lparr>searchQuery := ''build'', filter_type := FilterPending\<rparr>))"
  by (simp add: filteredAndSortedTasks_def set_sortWith filterTask_def searchMatches_def
        mountedPage_def loadTasks_def seedTasks_def initialPage_def)

text \<open>
  C2 as amended: a task is in the projection iff it is in the list, passes the
  status filter and, when the query is non-empty, matches the search (the query
  lower-cased by the platform's \<^verbatim>\<open>toLowerCase\<close> is a substring of the
  lower-cased title, description or category): the two conditions are combined
  with AND. This holds whatever the platform's lower-casing, date parsing and
  collation are.
\<close>

theorem projection_is_status_and_search:
  "(t \<in> set (filteredAndSortedTasks toLowerCase getTime localeCompare s)) =
     (t \<in> set (tasks s)
      \<and> (filter_type s = FilterAll
         \<or> (filter_type s = FilterPending \<and> status t = Pending)
         \<or> (filter_type s = FilterCompleted \<and> status t = Completed))
      \<and> (searchQuery s = []
         \<or> includesStr (toLowerCase (title t)) (toLowerCase (searchQuery s))
         \<or> (\<exists>d. description t = Some d
                \<and> includesStr (toLowerCase d) (toLowerCase (searchQuery s)))
         \<or> (\<exists>c. category t = Some c
                \<and> includesStr (toLowerCase c) (toLowerCase (searchQuery s)))))"
  by (auto simp: filteredAndSortedTasks_def set_sortWith filterTask_iff searchMatches_def
        Let_def split: option.splits)

subsection \<open>C3: reordering by drag and drop\<close>

text \<open>
  C3 says that the drop handler puts the dragged task immediately before the
  target, whether it was before or after the target. Counterexample to C3: on the
  seed list, dropping the first task on the second puts it after the second,
  where the specification's reorder leaves the list as it is.
\<close>

theorem onDrop_lands_after_later_target:
  "map_option (\<lambda>s'. map taskId (tasks s')) (onDrop (Some 1) 2 (mountedPage 0 None)) = Some [2, 1]
   \<and> map taskId (spec_reorder 1 2 (tasks (mountedPage 0 None))) = [1, 2]"
  by (simp add: onDrop_def Let_def seed_page seedTasks_def spliceDelete1_def spliceInsert_def
        spliceStart_def spec_reorder_def)

text \<open>
  C3 as amended: when the list holds a task with the dragged id and one with the
  different target id, the drop takes the dragged task out and puts it back at
  the index the target had: immediately before the target if the dragged task
  was after it, immediately after the target if the dragged task was before
  it. Dropping a task on itself leaves the state unchanged.
\<close>

theorem onDrop_takes_target_index:
  assumes "draggedId \<noteq> targetId"
    and "\<exists>x\<in>set (tasks s). taskId x = draggedId"
    and "\<exists>x\<in>set (tasks s). taskId x = targetId"
  shows "onDrop (Some draggedId) targetId s =
       Some (s\<lparr>tasks :=
                (if findIndex (\<lambda>a. taskId a = targetId) (tasks s)
                      < findIndex (\<lambda>a. taskId a = draggedId) (tasks s)
                 then spec_reorder draggedId targetId (tasks s)
                 else reorder_after draggedId targetId (tasks s))\<rparr>)
     \<and> find (\<lambda>a. taskId a = draggedId) (tasks s) =
         Some ((if findIndex (\<lambda>a. taskId a = targetId) (tasks s)
                     < findIndex (\<lambda>a. taskId a = draggedId) (tasks s)
                then spec_reorder draggedId targetId (tasks s)
                else reorder_after draggedId targetId (tasks s))
               ! nat (findIndex (\<lambda>a. taskId a = targetId) (tasks s)))
     \<and> onDrop (Some targetId) targetId s = Some s"
  using onDrop_cases[OF assms] onDrop_same by simp

text \<open>
  Witness for C3 as amended, on the seed list: the second task dropped on the
  first lands before it, the first dropped on the second lands after it.
\<close>

theorem onDrop_takes_target_index_witness:
  "onDrop (Some 2) 1 (mountedPage 0 None)
     = Some ((mountedPage 0 None)\<lparr>tasks := spec_reorder 2 1 (tasks (mountedPage 0 None))\<rparr>)
   \<and> onDrop (Some 1) 2 (mountedPage 0 None)
     = Some ((mountedPage 0 None)\<lparr>tasks := reorder_after 1 2 (tasks (mountedPage 0 None))\<rparr>)
   \<and> map taskId (spec_reorder 2 1 (tasks (mountedPage 0 None))) = [2, 1]
   \<and> map taskId (reorder_after 1 2 (tasks (mountedPage 0 None))) = [2, 1]"
proof -
  have a: "(2::int) \<noteq> 1" "(1::int) \<noteq> 2" by simp_all
  have b: "\<exists>x\<in>set (tasks (mountedPage 0 None)). taskId x = 2"
    by (simp add: seed_page seedTasks_def)
  have c: "\<exists>x\<in>set (tasks (mountedPage 0 None)). taskId x = 1"
    by (simp add: seed_page seedTasks_def)
  have i: "findIndex (\<lambda>a. taskId a = 1) (tasks (mountedPage 0 None)) = 0"
    "findIndex (\<lambda>a. taskId a = 2) (tasks (mountedPage 0 None)) = 1"
    by (simp_all add: seed_page seedTasks_def)
  have v: "map taskId (spec_reorder 2 1 (tasks (mountedPage 0 None))) = [2, 1]"
    "map taskId (reorder_after 1 2 (tasks (mountedPage 0 None))) = [2, 1]"
    by (simp_all add: seed_page seedTasks_def spec_reorder_def reorder_after_def)
  from onDrop_takes_target_index [OF a(1) b c] onDrop_takes_target_index [OF a(2) c b] i v
  show ?thesis by simp
qed

subsection \<open>C4: import\<close>

text \<open>
  C4: a parsed document that is a top-level array replaces the task list by the
  array's records, whatever they are and whatever the list was; a document that
  is no array, and a text that does not parse, raise an error alert and leave
  the whole state as it was; and the list changes only if the document is an
  array.
\<close>

theorem importTasks_array_only:
  "(\<forall>ts. importTasks (Some (Parsed (JArray ts))) s
           = (s\<lparr>tasks := ts\<rparr>, Some (Imported_successfully (length ts))))
   \<and> (\<forall>d. \<not> isArray d \<longrightarrow> importTasks (Some (Parsed d)) s = (s, Some Invalid_file_format))
   \<and> importTasks (Some Unparsable) s = (s, Some Error_importing_file)
   \<and> (\<forall>file. tasks (fst (importTasks file s)) \<noteq> tasks s
         \<longrightarrow> (\<exists>ts. file = Some (Parsed (JArray ts))))"
  by (auto simp: importTasks_def isArray_iff split: option.splits file_text.splits)

text \<open>
  Witness for C4: the object \<^verbatim>\<open>{"not":"an array"}\<close> is rejected and the seed list
  stays, and importing the empty array changes the seed list.
\<close>

theorem importTasks_array_only_witness:
  "\<not> isArray (JObject [(''not'', ''an array'')])
   \<and> importTasks (Some (Parsed (JObject [(''not'', ''an array'')]))) (mountedPage 0 None)
       = (mountedPage 0 None, Some Invalid_file_format)
   \<and> tasks (fst (importTasks (Some (Parsed (JArray []))) (mountedPage 0 None)))
       \<noteq> tasks (mountedPage 0 None)"
  using importTasks_array_only [of "mountedPage 0 None"]
  by (simp add: mountedPage_def loadTasks_def seedTasks_def)

subsection \<open>C5: toggling twice\<close>

text \<open>
  C5 says that two toggles in succession return a task to its original status
  and its original \<^verbatim>\<open>completedAt\<close>. Counterexample to C5: the completed seed task
  has no \<^verbatim>\<open>completedAt\<close> and has one, the time of the second toggle, after two
  toggles; and two more toggles replace that stamp by a later one.
\<close>

theorem toggle_twice_counterexample:
  "map completedAt (tasks (toggleTaskStatus 6 2 (toggleTaskStatus 5 2 (mountedPage 0 None))))
     \<noteq> map completedAt (tasks (mountedPage 0 None))
   \<and> map completedAt
        (tasks (toggleTaskStatus 9 2 (toggleTaskStatus 8 2
           (toggleTaskStatus 6 2 (toggleTaskStatus 5 2 (mountedPage 0 None))))))
     \<noteq> map completedAt (tasks (toggleTaskStatus 6 2 (toggleTaskStatus 5 2 (mountedPage 0 None))))"
  by (simp add: toggleTaskStatus_def mountedPage_def loadTasks_def seedTasks_def initialPage_def)

text \<open>
  C5 as amended: two toggles in succession return every task to its original
  status and change no field but \<^verbatim>\<open>completedAt\<close> of the toggled task, which is
  absent afterwards if the task was pending and the time of the second toggle
  if the task was completed; so a task that was pending without \<^verbatim>\<open>completedAt\<close>
  is exactly as before.
\<close>

theorem toggle_twice:
  "map status (tasks (toggleTaskStatus now2 i (toggleTaskStatus now1 i s))) = map status (tasks s)
   \<and> length (tasks (toggleTaskStatus now2 i (toggleTaskStatus now1 i s))) = length (tasks s)
   \<and> (\<forall>k < length (tasks s).
         tasks (toggleTaskStatus now2 i (toggleTaskStatus now1 i s)) ! k =
           (if taskId (tasks s ! k) = i
            then (tasks s ! k)\<lparr>completedAt :=
                    (if status (tasks s ! k) = Completed then Some now2 else None)\<rparr>
            else tasks s ! k))
   \<and> (\<forall>k < length (tasks s).
         status (tasks s ! k) = Pending \<and> completedAt (tasks s ! k) = None
           \<longrightarrow> tasks (toggleTaskStatus now2 i (toggleTaskStatus now1 i s)) ! k = tasks s ! k)"
  by (simp add: toggle_twice_eq o_def)

text \<open>Witness for C5 as amended: the pending seed task, toggled twice.\<close>

theorem toggle_twice_witness:
  "(0::nat) < length (tasks (mountedPage 0 None))
   \<and> status (tasks (mountedPage 0 None) ! 0) = Pending
   \<and> completedAt (tasks (mountedPage 0 None) ! 0) = None
   \<and> tasks (toggleTaskStatus 6 1 (toggleTaskStatus 5 1 (mountedPage 0 None))) ! 0
       = tasks (mountedPage 0 None) ! 0"
proof -
  have t: "tasks (mountedPage 0 None) = seedTasks 0"
    by (simp add: mountedPage_def loadTasks_def)
  have h: "(0::nat) < length (tasks (mountedPage 0 None))
    \<and> status (tasks (mountedPage 0 None) ! 0) = Pending
    \<and> completedAt (tasks (mountedPage 0 None) ! 0) = None"
    by (simp add: t seedTasks_def)
  with toggle_twice [of 6 1 5 "mountedPage 0 None"] show ?thesis
    by blast
qed

subsection \<open>C6: bulk completion\<close>

text \<open>
  C6: \<^verbatim>\<open>bulkComplete\<close> clears the selection, keeps the length of the list, leaves
  every task outside the selection and every selected task that is already
  completed exactly as it was, and turns every selected pending task into a
  completed one stamped with the time of the call, changing nothing else of it.
\<close>

theorem bulkComplete_frame:
  "selectedTasks (bulkComplete now s) = {}
   \<and> length (tasks (bulkComplete now s)) = length (tasks s)
   \<and> (\<forall>k < length (tasks s).
        (taskId (tasks s ! k) \<notin> selectedTasks s
           \<longrightarrow> tasks (bulkComplete now s) ! k = tasks s ! k)
      \<and> (taskId (tasks s ! k) \<in> selectedTasks s \<and> status (tasks s ! k) = Completed
           \<longrightarrow> tasks (bulkComplete now s) ! k = tasks s ! k)
      \<and> (taskId (tasks s ! k) \<in> selectedTasks s \<and> status (tasks s ! k) = Pending
           \<longrightarrow> tasks (bulkComplete now s) ! k
                 = (tasks s ! k)\<lparr>status := Completed, completedAt := Some now\<rparr>))"
  by (simp add: bulkComplete_def)

text \<open>
  Witness for C6, on the seed list: with the selection \<open>{2, 3}\<close> the pending
  first task is outside the selection and the completed second task inside, and
  both stay; with the selection \<open>{1, 3}\<close> the first task is completed at time 7.
\<close>

theorem bulkComplete_frame_witness:
  "tasks ((mountedPage 0 None)\<lparr>selectedTasks := {2, 3}\<rparr>) = seedTasks 0
   \<and> tasks (bulkComplete 7 ((mountedPage 0 None)\<lparr>selectedTasks := {2, 3}\<rparr>)) ! 0
       = seedTasks 0 ! 0
   \<and> tasks (bulkComplete 7 ((mountedPage 0 None)\<lparr>selectedTasks := {2, 3}\<rparr>)) ! 1
       = seedTasks 0 ! 1
   \<and> tasks (bulkComplete 7 ((mountedPage 0 None)\<lparr>selectedTasks := {1, 3}\<rparr>)) ! 0
       = (seedTasks 0 ! 0)\<lparr>status := Completed, completedAt := Some 7\<rparr>"
proof -
  let ?p = "(mountedPage 0 None)\<lparr>selectedTasks := {2, 3}\<rparr>"
  let ?q = "(mountedPage 0 None)\<lparr>selectedTasks := {1, 3}\<rparr>"
  have t: "tasks ?p = seedTasks 0" "tasks ?q = seedTasks 0"
    by (simp_all add: mountedPage_def loadTasks_def)
  have l: "(0::nat) < length (seedTasks 0)" "(1::nat) < length (seedTasks 0)"
    by (simp_all add: seedTasks_def)
  have a: "taskId (tasks ?p ! 0) \<notin> selectedTasks ?p"
    by (simp add: t seedTasks_def)
  have b: "taskId (tasks ?p ! 1) \<in> selectedTasks ?p \<and> status (tasks ?p ! 1) = Completed"
    by (simp add: t seedTasks_def)
  have c: "taskId (tasks ?q ! 0) \<in> selectedTasks ?q \<and> status (tasks ?q ! 0) = Pending"
    by (simp add: t seedTasks_def)
  from bulkComplete_frame [of 7 ?p] bulkComplete_frame [of 7 ?q] t l a b c
  show ?thesis by metis
qed

subsection \<open>C7: sorting by due date\<close>

text \<open>
  C7 says that for every task list the sort by due date puts the tasks without a
  due date last and the others in ascending order of their dates.
  Counterexample to C7: an imported list may carry a due date text that is no
  date; its time is \<^verbatim>\<open>NaN\<close>, every comparison with it counts as a tie, and the
  two dated tasks around it stay in descending order.
\<close>

theorem dueDate_sort_invalid_date:
  "map (dueTime (\<lambda>d. if d = ''2024-01-03'' then Some 1704240000000
                    else if d = ''2024-01-01'' then Some 1704067200000 else None))
     (filteredAndSortedTasks (\<lambda>x. x)
        (\<lambda>d. if d = ''2024-01-03'' then Some 1704240000000
             else if d = ''2024-01-01'' then Some 1704067200000 else None)
        (\<lambda>a b. 0)
        ((fst (importTasks
            (Some (Parsed (JArray
               [(seedTasks 0 ! 0)\<lparr>dueDate := Some ''2024-01-03''\<rparr>,
                (seedTasks 0 ! 0)\<lparr>dueDate := Some ''soon''\<rparr>,
                (seedTasks 0 ! 0)\<lparr>dueDate := Some ''2024-01-01''\<rparr>])))
            initialPage))
         \<lparr>sortBy := SortDueDate\<rparr>))
   = [Some 1704240000000, None, Some 1704067200000]
   \<and> map noDueDate
     (filteredAndSortedTasks (\<lambda>x. x)
        (\<lambda>d. if d = ''2024-01-03'' then Some 1704240000000
             else if d = ''2024-01-01'' then Some 1704067200000 else None)
        (\<lambda>a b. 0)
        ((fst (importTasks
            (Some (Parsed (JArray
               [(seedTasks 0 ! 0)\<lparr>dueDate := Some ''2024-01-03''\<rparr>,
                (seedTasks 0 ! 0)\<lparr>dueDate := Some ''soon''\<rparr>,
                (seedTasks 0 ! 0)\<lparr>dueDate := Some ''2024-01-01''\<rparr>])))
            initialPage))
         \<lparr>sortBy := SortDueDate\<rparr>))
   = [False, False, False]"
  by (simp add: filteredAndSortedTasks_def importTasks_def initialPage_def seedTasks_def
        filterTask_def sortWith_def comparison_def compareTasks_def noDueDate_def dueTime_def)

text \<open>
  C7 as amended: when every due date of the list that is present and not empty
  is the text of a date, the sort by due date keeps the tasks of the filtered
  list, puts no task without a due date before a task with one, and orders the
  tasks with a due date by ascending time.
\<close>

theorem dueDate_sort_order:
  assumes "sortBy s = SortDueDate"
    and "\<forall>t\<in>set (tasks s). \<not> noDueDate t \<longrightarrow> dueTime getTime t \<noteq> None"
    and "r = filteredAndSortedTasks toLowerCase getTime localeCompare s"
  shows "mset r = mset (filter (filterTask toLowerCase (filter_type s) (searchQuery s)) (tasks s))
    \<and> (\<forall>i j. i < j \<and> j < length r \<and> noDueDate (r ! i) \<longrightarrow> noDueDate (r ! j))
    \<and> (\<forall>i j. i < j \<and> j < length r \<and> \<not> noDueDate (r ! i) \<and> \<not> noDueDate (r ! j)
          \<longrightarrow> (\<exists>x y. dueTime getTime (r ! i) = Some x \<and> dueTime getTime (r ! j) = Some y
                      \<and> x \<le> y))"
proof -
  let ?xs = "filter (filterTask toLowerCase (filter_type s) (searchQuery s)) (tasks s)"
  have r: "r = sortWith (compareTasks getTime localeCompare SortDueDate) ?xs"
    using assms(1,3) by (simp add: filteredAndSortedTasks_def)
  have "\<forall>t\<in>set ?xs. \<not> noDueDate t \<longrightarrow> dueTime getTime t \<noteq> None"
    using assms(2) by simp
  then have "sorted_wrt (dueBefore getTime) r"
    unfolding r by (rule sortWith_dueDate_sorted)
  then have o: "\<And>i j. i < j \<Longrightarrow> j < length r \<Longrightarrow> dueBefore getTime (r ! i) (r ! j)"
    by (simp add: sorted_wrt_iff_nth_less)
  have "mset r = mset ?xs" by (simp add: r mset_sortWith)
  moreover have "\<forall>i j. i < j \<and> j < length r \<and> noDueDate (r ! i) \<longrightarrow> noDueDate (r ! j)"
    using o by (fastforce simp: dueBefore_def)
  moreover have "\<forall>i j. i < j \<and> j < length r \<and> \<not> noDueDate (r ! i) \<and> \<not> noDueDate (r ! j)
          \<longrightarrow> (\<exists>x y. dueTime getTime (r ! i) = Some x \<and> dueTime getTime (r ! j) = Some y
                      \<and> x \<le> y)"
    using o by (fastforce simp: dueBefore_def)
  ultimately show ?thesis by blast
qed

text \<open>
  Witness for C7 as amended: two dated tasks around an undated one are sorted to
  the earlier date, the later date, the undated task, and the sorted list holds
  the same tasks.
\<close>

theorem dueDate_sort_order_witness:
  "map dueDate
     (filteredAndSortedTasks (\<lambda>x. x)
        (\<lambda>d. if d = ''2024-01-03'' then Some 1704240000000
             else if d = ''2024-01-01'' then Some 1704067200000 else None)
        (\<lambda>a b. 0)
        ((mountedPage 0 None)
           \<lparr>sortBy := SortDueDate,
             tasks := [(seedTasks 0 ! 0)\<lparr>dueDate := Some ''2024-01-03''\<rparr>,
                       seedTasks 0 ! 1,
                       (seedTasks 0 ! 0)\<lparr>dueDate := Some ''2024-01-01''\<rparr>]\<rparr>))
     = [Some ''2024-01-01'', Some ''2024-01-03'', None]
   \<and> mset (filteredAndSortedTasks (\<lambda>x. x)
        (\<lambda>d. if d = ''2024-01-03'' then Some 1704240000000
             else if d = ''2024-01-01'' then Some 1704067200000 else None)
        (\<lambda>a b. 0)
        ((mountedPage 0 None)
           \<lparr>sortBy := SortDueDate,
             tasks := [(seedTasks 0 ! 0)\<lparr>dueDate := Some ''2024-01-03''\<rparr>,
                       seedTasks 0 ! 1,
                       (seedTasks 0 ! 0)\<lparr>dueDate := Some ''2024-01-01''\<rparr>]\<rparr>))
     = mset [(seedTasks 0 ! 0)\<lparr>dueDate := Some ''2024-01-03''\<rparr>,
             seedTasks 0 ! 1,
             (seedTasks 0 ! 0)\<lparr>dueDate := Some ''2024-01-01''\<rparr>]"
proof -
  let ?gt = "\<lambda>d. if d = ''2024-01-03'' then Some (1704240000000::int)
                 else if d = ''2024-01-01'' then Some 1704067200000 else None"
  let ?p = "(mountedPage 0 None)
              \<lparr>sortBy := SortDueDate,
                tasks := [(seedTasks 0 ! 0)\<lparr>dueDate := Some ''2024-01-03''\<rparr>,
                          seedTasks 0 ! 1,
                          (seedTasks 0 ! 0)\<lparr>dueDate := Some ''2024-01-01''\<rparr>]\<rparr>"
  have a: "sortBy ?p = SortDueDate" by simp
  have b: "\<forall>t\<in>set (tasks ?p). \<not> noDueDate t \<longrightarrow> dueTime ?gt t \<noteq> None"
    by (simp add: seedTasks_def noDueDate_def dueTime_def)
  have c: "map dueDate (filteredAndSortedTasks (\<lambda>x. x) ?gt (\<lambda>a b. 0) ?p)
             = [Some ''2024-01-01'', Some ''2024-01-03'', None]"
    by (simp add: filteredAndSortedTasks_def mountedPage_def initialPage_def seedTasks_def
          filterTask_def sortWith_def comparison_def compareTasks_def noDueDate_def dueTime_def)
  have f: "filter (filterTask (\<lambda>x. x) (filter_type ?p) (searchQuery ?p)) (tasks ?p) = tasks ?p"
    by (simp add: mountedPage_def initialPage_def filterTask_def)
  from dueDate_sort_order [OF a b refl, where toLowerCase = "\<lambda>x. x" and localeCompare = "\<lambda>a b. 0"]
  have "mset (filteredAndSortedTasks (\<lambda>x. x) ?gt (\<lambda>a b. 0) ?p) = mset (tasks ?p)"
    unfolding f by blast
  with c show ?thesis by simp
qed

subsection \<open>C8: what the relay hands to the upstream model\<close>

text \<open>
  C8 says that the relay forwards the most recent 10 entries of the incoming
  history and, when the history is empty, sends the system prompt concatenated
  with the message. Counterexample to C8: the history that the chat client sends
  with its first message, the user entry \<^verbatim>\<open>hi\<close> for the message \<^verbatim>\<open>hi\<close>, is
  forwarded as the empty history, not as its last 10 entries; and the message
  sent with an empty history is not the prompt followed by the message alone.
\<close>

theorem history_filtered_before_truncation:
  "buildHistory ''hi'' [\<lparr>role = ''user'', content = ''hi''\<rparr>] = []
   \<and> map toHistoryEntry (sliceLast 10 [\<lparr>role = ''user'', content = ''hi''\<rparr>]) \<noteq> []
   \<and> messageToSend ''hi'' [] \<noteq> SYSTEM_PROMPT @ ''hi''"
  by (simp add: buildHistory_def sliceLast_def messageToSend_def)

text \<open>
  C8 as amended: for a request with a non-empty message and a history array
  (none counting as the empty array), the relay first drops every user entry whose content is the current message,
  keeps the most recent 10 of the remaining entries, and hands them to the
  upstream model with the role \<^verbatim>\<open>user\<close> kept and every other role sent as
  \<^verbatim>\<open>model\<close>; the message goes out unchanged unless that history is empty, in
  which case it is the system prompt, a blank line, \<^verbatim>\<open>User: \<close> and the message.
  The response depends on the upstream service only through its answers to that
  history and that message, and a non-empty reply of the first model is
  returned with status 200.
\<close>

theorem upstream_receives_filtered_history:
  assumes "configured apiKey" and "bodyMessage b = Some message" and "message \<noteq> []"
    and "bodyChatHistory b = Entries es \<or> bodyChatHistory b = Absent \<and> es = []"
    and "H = map toHistoryEntry
               (sliceLast 10 (filter (\<lambda>e. \<not> (role e = ''user'' \<and> content e = message)) es))"
    and "M = (if H = [] then SYSTEM_PROMPT @ ''\<newline>\<newline>User: '' @ message else message)"
  shows "length H \<le> 10
    \<and> ((\<forall>n\<in>set modelNames. up' n H M = up n H M)
          \<longrightarrow> POST apiKey up' (Inr b) = POST apiKey up (Inr b))
    \<and> (up ''gemini-1.5-flash'' H M = Inr text \<and> text \<noteq> []
          \<longrightarrow> POST apiKey up (Inr b) = \<lparr>httpStatus = 200, body = Success text\<rparr>)"
proof -
  have h: "buildHistory message es = H"
    using assms(5) by (simp add: buildHistory_def)
  have m: "messageToSend message H = M"
    using assms(6) by (simp add: messageToSend_def)
  note r = relay_unfold[OF assms(2,3,4), unfolded h m]
  have 1: "length H \<le> 10"
    using assms(5) by (simp add: length_sliceLast)
  have 2: "(\<forall>n\<in>set modelNames. up' n H M = up n H M)
          \<longrightarrow> POST apiKey up' (Inr b) = POST apiKey up (Inr b)"
  proof
    assume "\<forall>n\<in>set modelNames. up' n H M = up n H M"
    then have "tryModels up' H M modelNames None = tryModels up H M modelNames None"
      by (rule tryModels_cong)
    then show "POST apiKey up' (Inr b) = POST apiKey up (Inr b)"
      by (simp add: POST_def r)
  qed
  have 3: "up ''gemini-1.5-flash'' H M = Inr text \<and> text \<noteq> []
          \<longrightarrow> POST apiKey up (Inr b) = \<lparr>httpStatus = 200, body = Success text\<rparr>"
    using assms(1) by (auto simp: POST_def r modelNames_def)
  from 1 2 3 show ?thesis by blast
qed

text \<open>
  Witness for C8 as amended: the first message \<^verbatim>\<open>hi\<close> of a chat, sent with the
  history that holds only itself, reaches an upstream service that echoes its
  input as the system prompt followed by \<^verbatim>\<open>User: hi\<close>.
\<close>

theorem upstream_receives_filtered_history_witness:
  "configured (Some ''key'')
   \<and> POST (Some ''key'') (\<lambda>modelName history msg. Inr msg)
        (Inr \<lparr>bodyMessage = Some ''hi'',
              bodyChatHistory = Entries [\<lparr>role = ''user'', content = ''hi''\<rparr>]\<rparr>)
      = \<lparr>httpStatus = 200, body = Success (SYSTEM_PROMPT @ ''\<newline>\<newline>User: hi'')\<rparr>"
proof -
  let ?b = "\<lparr>bodyMessage = Some ''hi'',
             bodyChatHistory = Entries [\<lparr>role = ''user'', content = ''hi''\<rparr>]\<rparr>"
  let ?M = "SYSTEM_PROMPT @ ''\<newline>\<newline>User: hi''"
  have c: "configured (Some ''key'')" by (simp add: configured_def)
  have m: "bodyMessage ?b = Some ''hi''" "''hi'' \<noteq> []"
    "bodyChatHistory ?b = Entries [\<lparr>role = ''user'', content = ''hi''\<rparr>]
       \<or> bodyChatHistory ?b = Absent \<and> [\<lparr>role = ''user'', content = ''hi''\<rparr>] = []"
    by simp_all
  have h: "[] = map toHistoryEntry
      (sliceLast 10
         (filter (\<lambda>e. \<not> (role e = ''user'' \<and> content e = ''hi''))
            [\<lparr>role = ''user'', content = ''hi''\<rparr>]))"
    by (simp add: sliceLast_def)
  have s: "?M = (if ([]::history_entry list) = [] then SYSTEM_PROMPT @ ''\<newline>\<newline>User: '' @ ''hi''
                 else ''hi'')"
    by simp
  have n: "?M \<noteq> []" by simp
  from upstream_receives_filtered_history
         [OF c m h s, of "\<lambda>modelName history msg. Inr msg" "\<lambda>modelName history msg. Inr msg" ?M] c n
  show ?thesis by simp
qed

subsection \<open>C9: the fallback over the model names\<close>

text \<open>
  C9 says that the relay goes on to the next model on an error of the
  not-found class, stops on any other error, and returns the reply of the first
  model that succeeds with \<^verbatim>\<open>success: true\<close>. The first two parts and the
  third for a non-empty reply are the lemma \<open>fallback_policy\<close>. C9 on an empty
  reply: the test after the loop takes the empty text of a model that succeeded
  for the sign that no model did, and the relay answers with the status 500
  and the error \<^verbatim>\<open>No available models found\<close>.
\<close>

theorem empty_reply_is_reported_as_failure:
  "POST (Some ''key'') (\<lambda>modelName history msg. Inr [])
     (Inr \<lparr>bodyMessage = Some ''hi'', bodyChatHistory = Absent\<rparr>)
   = \<lparr>httpStatus = 500, body = Failure ''No available models found'' None\<rparr>"
  by (simp add: POST_def configured_def relay_def Let_def modelNames_def lastErrorOr_def
        errorResponse_def messageIncludes_def)

subsection \<open>C10: the mutations that keep the list's identities\<close>

text \<open>
  C10 says that every per-task mutation keeps the length of the list and the
  order of the task ids, and that only deletion, addition or reorder changes the
  list's membership or order. Counterexample to C10: a successful import is none
  of the three and replaces the list, here the seed tasks 1 and 2 by a task 9.
\<close>

theorem import_changes_membership:
  "map taskId
     (tasks (fst (importTasks
        (Some (Parsed (JArray [(seedTasks 0 ! 0)\<lparr>taskId := 9\<rparr>])))
        (mountedPage 0 None))))
     = [9]
   \<and> map taskId (tasks (mountedPage 0 None)) = [1, 2]"
  by (simp add: importTasks_def mountedPage_def loadTasks_def seedTasks_def)

text \<open>
  C10 as amended: the update of a title, the status toggle, the three subtask
  operations, the bulk completion and the bulk priority change keep the list of
  task ids as it is, its length and its order. Of the other handlers, adding a
  task and instantiating a template append one id, deleting a task and the bulk
  deletion remove ids and keep the order of the rest, the drop of a dragged card
  permutes the tasks, and an import replaces the list by the imported array if
  the document is one and leaves it otherwise.
\<close>

theorem mutations_keep_ids:
  "map taskId (tasks (handleUpdateTask i (titleOnly newTitle) s)) = map taskId (tasks s)
   \<and> map taskId (tasks (toggleTaskStatus now i s)) = map taskId (tasks s)
   \<and> map taskId (tasks (addSubtask trim now i newTitle s)) = map taskId (tasks s)
   \<and> map taskId (tasks (toggleSubtask i j s)) = map taskId (tasks s)
   \<and> map taskId (tasks (deleteSubtask i j s)) = map taskId (tasks s)
   \<and> map taskId (tasks (bulkComplete now s)) = map taskId (tasks s)
   \<and> map taskId (tasks (bulkUpdatePriority p s)) = map taskId (tasks s)
   \<and> map taskId (tasks (handleAddTask trim now s))
       = (if trim (newTaskTitle s) = [] then map taskId (tasks s)
          else map taskId (tasks s) @ [now])
   \<and> map taskId (tasks (useTemplate now template s)) = map taskId (tasks s) @ [now]
   \<and> map taskId (tasks (handleDeleteTask i s)) = filter (\<lambda>k. k \<noteq> i) (map taskId (tasks s))
   \<and> map taskId (tasks (bulkDelete s))
       = filter (\<lambda>k. k \<notin> selectedTasks s) (map taskId (tasks s))
   \<and> (onDrop d t s = Some s' \<longrightarrow> mset (tasks s') = mset (tasks s))
   \<and> (isArray doc \<longrightarrow> tasks (fst (importTasks (Some (Parsed doc)) s)) = elements doc)
   \<and> (\<not> isArray doc \<longrightarrow> tasks (fst (importTasks (Some (Parsed doc)) s)) = tasks s)"
proof -
  have per_task:
    "map taskId (tasks (handleUpdateTask i (titleOnly newTitle) s)) = map taskId (tasks s)"
    "map taskId (tasks (toggleTaskStatus now i s)) = map taskId (tasks s)"
    "map taskId (tasks (addSubtask trim now i newTitle s)) = map taskId (tasks s)"
    "map taskId (tasks (toggleSubtask i j s)) = map taskId (tasks s)"
    "map taskId (tasks (deleteSubtask i j s)) = map taskId (tasks s)"
    "map taskId (tasks (bulkComplete now s)) = map taskId (tasks s)"
    "map taskId (tasks (bulkUpdatePriority p s)) = map taskId (tasks s)"
    by (simp_all add: handleUpdateTask_def titleOnly_def merge_def override_def
          toggleTaskStatus_def addSubtask_def toggleSubtask_def deleteSubtask_def
          bulkComplete_def bulkUpdatePriority_def Let_def o_def)
  have grow:
    "map taskId (tasks (handleAddTask trim now s))
       = (if trim (newTaskTitle s) = [] then map taskId (tasks s)
          else map taskId (tasks s) @ [now])"
    "map taskId (tasks (useTemplate now template s)) = map taskId (tasks s) @ [now]"
    by (simp_all add: handleAddTask_def useTemplate_def Let_def)
  have shrink:
    "map taskId (tasks (handleDeleteTask i s)) = filter (\<lambda>k. k \<noteq> i) (map taskId (tasks s))"
    "map taskId (tasks (bulkDelete s))
       = filter (\<lambda>k. k \<notin> selectedTasks s) (map taskId (tasks s))"
    by (simp_all add: handleDeleteTask_def bulkDelete_def filter_map o_def)
  have reorder: "onDrop d t s = Some s' \<longrightarrow> mset (tasks s') = mset (tasks s)"
    by (simp add: mset_onDrop)
  have import:
    "isArray doc \<longrightarrow> tasks (fst (importTasks (Some (Parsed doc)) s)) = elements doc"
    "\<not> isArray doc \<longrightarrow> tasks (fst (importTasks (Some (Parsed doc)) s)) = tasks s"
    by (simp_all add: importTasks_def)
  from per_task grow shrink reorder import show ?thesis by simp
qed

text \<open>
  Witness for C10 as amended, on the seed list: the title update that the page
  issues on blur keeps the ids 1 and 2, the drop of the second task on the first
  gives the reversed list, which holds the same tasks, the import of an object
  leaves the list and the import of the empty array empties it.
\<close>

theorem mutations_keep_ids_witness:
  "map taskId (tasks (handleUpdateTask 1 (titleOnly ''Untitled Task'') (mountedPage 0 None)))
     = [1, 2]
   \<and> onDrop (Some 2) 1 (mountedPage 0 None)
     = Some ((mountedPage 0 None)\<lparr>tasks := rev (seedTasks 0)\<rparr>)
   \<and> mset (rev (seedTasks 0)) = mset (seedTasks 0)
   \<and> tasks (fst (importTasks (Some (Parsed (JObject [(''not'', ''an array'')])))
        (mountedPage 0 None))) = seedTasks 0
   \<and> tasks (fst (importTasks (Some (Parsed (JArray []))) (mountedPage 0 None))) = []"
proof -
  let ?s = "mountedPage 0 None"
  let ?s' = "?s\<lparr>tasks := rev (seedTasks 0)\<rparr>"
  have ids: "map taskId (tasks ?s) = [1, 2]"
    by (simp add: seed_page seedTasks_def)
  have d: "onDrop (Some 2) 1 ?s = Some ?s'"
    by (simp add: onDrop_def Let_def seed_page seedTasks_def spliceDelete1_def
          spliceInsert_def spliceStart_def)
  have o: "\<not> isArray (JObject [(''not'', ''an array'')])" by simp
  have a: "isArray (JArray [])" by simp
  from mutations_keep_ids [where i = 1 and newTitle = "''Untitled Task''" and s = ?s
         and d = "Some 2" and t = 1 and s' = ?s' and doc = "JObject [(''not'', ''an array'')]"]
       mutations_keep_ids [where s = ?s and doc = "JArray []"]
       ids d o a
  show ?thesis by (simp add: seed_page)
qed

end
